theory Spec2Isabelle
  imports Complex_Main "HOL-Library.Multiset"
begin

section \<open>Data model\<close>

text \<open>
  The history part of \<^verbatim>\<open>server.js\<close> works on three SQLite tables declared in
  \<^verbatim>\<open>database.js\<close>: \<^verbatim>\<open>snapshots\<close>, \<^verbatim>\<open>anuncios\<close> and \<^verbatim>\<open>alteracoes\<close>.
  A table is the list of its rows in rowid order; a nullable column is an \<open>option\<close>
  (\<open>None\<close> is NULL); a \<^verbatim>\<open>NOT NULL\<close> column is not.

  Numbers. A JavaScript number is a binary64 value: a finite one is modelled by the
  rational it is exactly, and \<^verbatim>\<open>Infinity\<close>, \<^verbatim>\<open>-Infinity\<close> and \<^verbatim>\<open>NaN\<close> are kept.
  Every arithmetic operation rounds its exact result to the nearest binary64 value
  (\<open>fl\<close> below). The sign of zero is the one thing not modelled: zero is \<open>+0\<close>.
  Timestamps (\<^verbatim>\<open>CURRENT_TIMESTAMP\<close>, \<^verbatim>\<open>datetime('now', ...)\<close>) are seconds since
  1970 as \<open>int\<close>; their text form \<^verbatim>\<open>YYYY-MM-DD HH:MM:SS\<close> orders the same way for
  the years 0000 to 9999.

  The JSON copies (\<^verbatim>\<open>snapshots.data\<close>, \<^verbatim>\<open>anuncios.data_completa\<close>) are left out:
  nothing reads them.
\<close>

datatype number = Num rat | Infinity | MinusInfinity | NaN

text \<open>
  One element of \<^verbatim>\<open>listings\<close>: the body of one entry of the marketplace's answer.
  The fields are named as in the JSON (\<^verbatim>\<open>id\<close> is \<open>item_id\<close>, \<^verbatim>\<open>status\<close> is
  \<open>item_status\<close>). A field that is missing or null is \<open>None\<close>; the database driver
  binds both as NULL. A price is the number the JSON literal parses to; JSON has no
  NaN (which SQLite would store as NULL), so a price is never NaN.
\<close>

record listing =
  item_id :: "string option"
  title :: "string option"
  price :: "number option"
  available_quantity :: "int option"
  sold_quantity :: "int option"
  category_id :: "string option"
  item_status :: "string option"
  thumbnail :: "string option"

record snapshot =
  s_id :: nat
  seller_id :: string
  captured_at :: int
  total_anuncios :: "int option"
  total_vendas :: "int option"
  ticket_medio :: "rat option"

record anuncio =
  an_id :: nat
  snapshot_id :: "nat option"
  ml_item_id :: string
  titulo :: "string option"
  preco :: "number option"
  estoque :: "int option"
  vendidos :: "int option"
  categoria :: "string option"
  status :: "string option"
  thumbnail_url :: "string option"

text \<open>
  \<^verbatim>\<open>valor_anterior\<close> and \<^verbatim>\<open>valor_novo\<close> are TEXT columns that receive a title or a
  price. A price is stored as the text SQLite prints for the number; the model keeps
  the number that was bound.
\<close>

datatype valor = Texto string | Numero number

text \<open>
  \<^verbatim>\<open>variacao_pct\<close> is a REAL column that receives the string \<^verbatim>\<open>toFixed(2)\<close>
  returns. SQLite converts a string that is a numeric literal to the binary64 number
  nearest to it (\<open>Pct\<close>, by its exact value); any other string (\<^verbatim>\<open>"Infinity"\<close>,
  \<^verbatim>\<open>"-Infinity"\<close>, \<^verbatim>\<open>"NaN"\<close>) is stored as that text.
\<close>

datatype pct = Pct rat | PctText string

text \<open>The values one INSERT INTO alteracoes binds; a column it does not name is NULL.\<close>

record change =
  c_ml_item_id :: string
  c_tipo :: string
  c_valor_anterior :: "valor option"
  c_valor_novo :: "valor option"
  c_variacao_pct :: "pct option"
  c_vendas_antes :: "int option"
  c_vendas_depois :: "int option"

record alteracao =
  al_id :: nat
  al_ml_item_id :: string
  tipo :: string
  valor_anterior :: "valor option"
  valor_novo :: "valor option"
  variacao_pct :: "pct option"
  detectado_em :: int
  vendas_antes :: "int option"
  vendas_depois :: "int option"

text \<open>
  The database: the three tables, each with the counter AUTOINCREMENT keeps for it
  (the largest rowid the table ever had).
\<close>

record db =
  snapshots :: "snapshot list"
  snapshots_seq :: nat
  anuncios :: "anuncio list"
  anuncios_seq :: nat
  alteracoes :: "alteracao list"
  alteracoes_seq :: nat

text \<open>What a failing statement throws (\<^verbatim>\<open>err.message\<close>), and what the handler answers.\<close>

datatype error = SqliteError string

datatype response =
    Success nat nat
  | Status500 string

section \<open>Binary64 arithmetic\<close>

text \<open>
  The exponent of a positive \<open>x\<close>: the \<open>e\<close> with \<open>2^e \<le> x < 2^(e+1)\<close>, kept within
  \<open>-1022\<close> (below it the numbers are subnormal and share the exponent \<open>-1022\<close>) and
  \<open>1024\<close> (from \<open>2^1024\<close> on the result overflows).
\<close>

function exp_down :: "rat \<Rightarrow> int \<Rightarrow> int" where
  "exp_down x e = (if 2 \<le> x \<and> e < 1024 then exp_down (x / 2) (e + 1) else e)"
  by pat_completeness auto
termination
  by (relation "measure (\<lambda>(x, e). nat (1024 - e))") auto

function exp_up :: "rat \<Rightarrow> int \<Rightarrow> int" where
  "exp_up x e = (if x < 1 \<and> - 1022 < e then exp_up (x * 2) (e - 1) else e)"
  by pat_completeness auto
termination
  by (relation "measure (\<lambda>(x, e). nat (e + 1022))") auto

definition exponent :: "rat \<Rightarrow> int" where
  "exponent x = (if 1 \<le> x then exp_down x 0 else exp_up x 0)"

definition pow2 :: "int \<Rightarrow> rat" where
  "pow2 e = (if 0 \<le> e then 2 ^ nat e else 1 / 2 ^ nat (- e))"

text \<open>Rounding to the nearest integer, to the even one when two are equally near.\<close>

definition round_even :: "rat \<Rightarrow> int" where
  "round_even x =
     (let n = \<lfloor>x\<rfloor>; r = x - of_int n
      in if r < 1 / 2 then n else if 1 / 2 < r then n + 1 else if even n then n else n + 1)"

text \<open>
  The binary64 number nearest to \<open>x\<close>: a multiple of \<open>2^(e-52)\<close>, with 53 significant
  bits. \<open>fl\<close> is the result of an operation whose exact value is \<open>x\<close>: the nearest
  number, or an infinity when that is \<open>2^1024\<close> or more in magnitude.
\<close>

definition nearest :: "rat \<Rightarrow> rat" where
  "nearest x =
     (if x = 0 then 0
      else (let q = pow2 (exponent \<bar>x\<bar> - 52);
                y = of_int (round_even (\<bar>x\<bar> / q)) * q
            in if 0 < x then y else - y))"

definition fl :: "rat \<Rightarrow> number" where
  "fl x =
     (if pow2 1024 \<le> \<bar>nearest x\<bar> then (if 0 < x then Infinity else MinusInfinity)
      else Num (nearest x))"

text \<open>\<^verbatim>\<open>a - b\<close>\<close>

fun js_minus :: "number \<Rightarrow> number \<Rightarrow> number" where
  "js_minus (Num x) (Num y) = fl (x - y)"
| "js_minus NaN b = NaN"
| "js_minus a NaN = NaN"
| "js_minus Infinity Infinity = NaN"
| "js_minus MinusInfinity MinusInfinity = NaN"
| "js_minus Infinity b = Infinity"
| "js_minus MinusInfinity b = MinusInfinity"
| "js_minus a Infinity = MinusInfinity"
| "js_minus a MinusInfinity = Infinity"

text \<open>\<^verbatim>\<open>Math.abs(a)\<close>\<close>

fun js_abs :: "number \<Rightarrow> number" where
  "js_abs (Num x) = Num \<bar>x\<bar>"
| "js_abs Infinity = Infinity"
| "js_abs MinusInfinity = Infinity"
| "js_abs NaN = NaN"

text \<open>\<^verbatim>\<open>a > b\<close>: false when either side is NaN.\<close>

fun js_gt :: "number \<Rightarrow> number \<Rightarrow> bool" where
  "js_gt (Num x) (Num y) \<longleftrightarrow> y < x"
| "js_gt NaN b \<longleftrightarrow> False"
| "js_gt a NaN \<longleftrightarrow> False"
| "js_gt a Infinity \<longleftrightarrow> False"
| "js_gt MinusInfinity b \<longleftrightarrow> False"
| "js_gt Infinity b \<longleftrightarrow> True"
| "js_gt a MinusInfinity \<longleftrightarrow> True"

text \<open>
  \<^verbatim>\<open>a / b\<close>: a finite nonzero number over zero is an infinity, \<open>0 / 0\<close> is NaN, a
  finite number over an infinity is zero.
\<close>

fun js_div :: "number \<Rightarrow> number \<Rightarrow> number" where
  "js_div (Num x) (Num y) =
     (if y \<noteq> 0 then fl (x / y)
      else if 0 < x then Infinity
      else if x < 0 then MinusInfinity
      else NaN)"
| "js_div NaN b = NaN"
| "js_div a NaN = NaN"
| "js_div (Num x) b = Num 0"
| "js_div Infinity (Num y) = (if y < 0 then MinusInfinity else Infinity)"
| "js_div MinusInfinity (Num y) = (if y < 0 then Infinity else MinusInfinity)"
| "js_div a b = NaN"

text \<open>\<^verbatim>\<open>a * b\<close>: an infinity times zero is NaN.\<close>

fun js_times :: "number \<Rightarrow> number \<Rightarrow> number" where
  "js_times (Num x) (Num y) = fl (x * y)"
| "js_times NaN b = NaN"
| "js_times a NaN = NaN"
| "js_times Infinity (Num y) =
     (if 0 < y then Infinity else if y < 0 then MinusInfinity else NaN)"
| "js_times MinusInfinity (Num y) =
     (if 0 < y then MinusInfinity else if y < 0 then Infinity else NaN)"
| "js_times (Num x) Infinity =
     (if 0 < x then Infinity else if x < 0 then MinusInfinity else NaN)"
| "js_times (Num x) MinusInfinity =
     (if 0 < x then MinusInfinity else if x < 0 then Infinity else NaN)"
| "js_times Infinity Infinity = Infinity"
| "js_times MinusInfinity MinusInfinity = Infinity"
| "js_times a b = MinusInfinity"

text \<open>
  \<^verbatim>\<open>x.toFixed(2)\<close> and its storage in the REAL column. For a finite \<open>x\<close> below
  \<open>10^21\<close> in magnitude the string is the multiple of 1/100 nearest to the exact value
  of \<open>x\<close>, the one of larger magnitude when two are equally near (\<open>round2\<close>; the sign is
  set aside first), and the column holds the binary64 number nearest to it. From
  \<open>10^21\<close> on the string is the number itself. The infinities and NaN give their names.
\<close>

definition round2 :: "rat \<Rightarrow> rat" where
  "round2 x =
     (if x < 0 then - (of_int \<lfloor>- x * 100 + 1 / 2\<rfloor> / 100)
      else of_int \<lfloor>x * 100 + 1 / 2\<rfloor> / 100)"

fun toFixed2 :: "number \<Rightarrow> pct" where
  "toFixed2 (Num x) = Pct (if 10 ^ 21 \<le> \<bar>x\<bar> then x else nearest (round2 x))"
| "toFixed2 Infinity = PctText ''Infinity''"
| "toFixed2 MinusInfinity = PctText ''-Infinity''"
| "toFixed2 NaN = PctText ''NaN''"

section \<open>Statements\<close>

text \<open>AUTOINCREMENT: one more than the largest rowid the table has or ever had.\<close>

definition next_rowid :: "nat \<Rightarrow> nat list \<Rightarrow> nat" where
  "next_rowid seq ids = Suc (fold max ids seq)"

text \<open>
  \<^verbatim>\<open>INSERT INTO snapshots (seller_id, total_anuncios, total_vendas, data)\<close>:
  \<^verbatim>\<open>seller_id\<close> is NOT NULL, \<^verbatim>\<open>captured_at\<close> defaults to the clock, and
  \<^verbatim>\<open>ticket_medio\<close> is not named. \<open>seller\<close> is \<^verbatim>\<open>seller.id\<close> as the TEXT column
  holds it, \<open>None\<close> when the answer of \<^verbatim>\<open>/users/me\<close> has none. The result is the error
  thrown or \<^verbatim>\<open>lastInsertRowid\<close>, with the database after the statement.
\<close>

definition insert_snapshot ::
  "int \<Rightarrow> string option \<Rightarrow> int \<Rightarrow> int \<Rightarrow> db \<Rightarrow> (error + nat) \<times> db" where
  "insert_snapshot now seller n totalVendas d =
     (case seller of
        None \<Rightarrow> (Inl (SqliteError ''NOT NULL constraint failed: snapshots.seller_id''), d)
      | Some s \<Rightarrow>
          (let i = next_rowid (snapshots_seq d) (map s_id (snapshots d))
           in (Inr i,
               d\<lparr>snapshots := snapshots d @
                    [\<lparr>s_id = i, seller_id = s, captured_at = now,
                      total_anuncios = Some n, total_vendas = Some totalVendas,
                      ticket_medio = None\<rparr>],
                  snapshots_seq := i\<rparr>)))"

text \<open>
  \<^verbatim>\<open>INSERT INTO anuncios (snapshot_id, ml_item_id, titulo, preco, estoque, vendidos,
  categoria, status, thumbnail_url, data_completa)\<close> for one item; \<^verbatim>\<open>ml_item_id\<close> is
  NOT NULL. Each statement commits on its own: no transaction is opened anywhere.
\<close>

definition insert_anuncio :: "nat \<Rightarrow> listing \<Rightarrow> db \<Rightarrow> error option \<times> db" where
  "insert_anuncio snapshotId item d =
     (case item_id item of
        None \<Rightarrow> (Some (SqliteError ''NOT NULL constraint failed: anuncios.ml_item_id''), d)
      | Some i \<Rightarrow>
          (let r = next_rowid (anuncios_seq d) (map an_id (anuncios d))
           in (None,
               d\<lparr>anuncios := anuncios d @
                    [\<lparr>an_id = r, snapshot_id = Some snapshotId, ml_item_id = i,
                      titulo = title item, preco = price item,
                      estoque = available_quantity item, vendidos = sold_quantity item,
                      categoria = category_id item, status = item_status item,
                      thumbnail_url = thumbnail item\<rparr>],
                  anuncios_seq := r\<rparr>)))"

text \<open>\<^verbatim>\<open>for (const item of listings) { ... .run(...) }\<close>: the first throw ends the loop.\<close>

fun insert_anuncios :: "nat \<Rightarrow> listing list \<Rightarrow> db \<Rightarrow> error option \<times> db" where
  "insert_anuncios snapshotId [] d = (None, d)"
| "insert_anuncios snapshotId (item # rest) d =
     (case insert_anuncio snapshotId item d of
        (Some e, d') \<Rightarrow> (Some e, d')
      | (None, d') \<Rightarrow> insert_anuncios snapshotId rest d')"

text \<open>
  INSERT INTO alteracoes: \<^verbatim>\<open>ml_item_id\<close> and \<^verbatim>\<open>tipo\<close> are NOT NULL and always bound to
  a string here, so the statement does not fail on a constraint.
\<close>

definition insert_alteracao :: "int \<Rightarrow> change \<Rightarrow> db \<Rightarrow> db" where
  "insert_alteracao now c d =
     (let r = next_rowid (alteracoes_seq d) (map al_id (alteracoes d))
      in d\<lparr>alteracoes := alteracoes d @
               [\<lparr>al_id = r, al_ml_item_id = c_ml_item_id c, tipo = c_tipo c,
                 valor_anterior = c_valor_anterior c, valor_novo = c_valor_novo c,
                 variacao_pct = c_variacao_pct c, detectado_em = now,
                 vendas_antes = c_vendas_antes c, vendas_depois = c_vendas_depois c\<rparr>],
             alteracoes_seq := r\<rparr>)"

text \<open>\<^verbatim>\<open>SELECT id FROM snapshots WHERE id < ? ORDER BY id DESC LIMIT 1\<close>\<close>

definition prevSnapshot :: "db \<Rightarrow> nat \<Rightarrow> nat option" where
  "prevSnapshot d snapshotId =
     (case filter (\<lambda>i. i < snapshotId) (map s_id (snapshots d)) of
        [] \<Rightarrow> None
      | i # ids \<Rightarrow> Some (fold max ids i))"

text \<open>\<^verbatim>\<open>SELECT * FROM anuncios WHERE snapshot_id = ?\<close>, in rowid order.\<close>

definition anuncios_of :: "db \<Rightarrow> nat \<Rightarrow> anuncio list" where
  "anuncios_of d snapshotId = filter (\<lambda>a. snapshot_id a = Some snapshotId) (anuncios d)"

section \<open>Change detection\<close>

text \<open>A NULL column read back is \<^verbatim>\<open>null\<close>, and \<^verbatim>\<open>null\<close> in arithmetic is 0.\<close>

definition ToNumber :: "number option \<Rightarrow> number" where
  "ToNumber v = (case v of None \<Rightarrow> Num 0 | Some x \<Rightarrow> x)"

text \<open>
  \<^verbatim>\<open>Math.abs(current.preco - prev.preco) > 0.01\<close>, where \<^verbatim>\<open>0.01\<close> is the binary64
  number nearest to 1/100, and
  \<^verbatim>\<open>((current.preco - prev.preco) / prev.preco * 100).toFixed(2)\<close>.
\<close>

definition price_differs :: "anuncio \<Rightarrow> anuncio \<Rightarrow> bool" where
  "price_differs current prev \<longleftrightarrow>
     js_gt (js_abs (js_minus (ToNumber (preco current)) (ToNumber (preco prev)))) (fl (1 / 100))"

definition variacao :: "anuncio \<Rightarrow> anuncio \<Rightarrow> pct" where
  "variacao current prev =
     toFixed2 (js_times
       (js_div (js_minus (ToNumber (preco current)) (ToNumber (preco prev)))
          (ToNumber (preco prev)))
       (Num 100))"

text \<open>
  \<^verbatim>\<open>new Map(prevItems.map(i => [i.ml_item_id, i]))\<close>: the entries are set one after the
  other, so the last row of an id is the one kept.
\<close>

definition prevMap_of :: "anuncio list \<Rightarrow> (string \<rightharpoonup> anuncio)" where
  "prevMap_of prevItems = fold (\<lambda>i m. m(ml_item_id i \<mapsto> i)) prevItems Map.empty"

text \<open>
  The body of \<^verbatim>\<open>for (const current of currentItems)\<close>: the values of the INSERTs it
  runs for one row, in the order it runs them.
\<close>

definition changes_of :: "(string \<rightharpoonup> anuncio) \<Rightarrow> anuncio \<Rightarrow> change list" where
  "changes_of prevMap current =
     (case prevMap (ml_item_id current) of
        None \<Rightarrow>
          [\<lparr>c_ml_item_id = ml_item_id current, c_tipo = ''novo'',
            c_valor_anterior = None, c_valor_novo = map_option Texto (titulo current),
            c_variacao_pct = None, c_vendas_antes = None, c_vendas_depois = None\<rparr>]
      | Some prev \<Rightarrow>
          (if price_differs current prev
           then
             [\<lparr>c_ml_item_id = ml_item_id current, c_tipo = ''preco'',
               c_valor_anterior = map_option Numero (preco prev),
               c_valor_novo = map_option Numero (preco current),
               c_variacao_pct = Some (variacao current prev),
               c_vendas_antes = vendidos prev, c_vendas_depois = vendidos current\<rparr>]
           else [])
          @
          (if titulo current \<noteq> titulo prev
           then
             [\<lparr>c_ml_item_id = ml_item_id current, c_tipo = ''titulo'',
               c_valor_anterior = map_option Texto (titulo prev),
               c_valor_novo = map_option Texto (titulo current),
               c_variacao_pct = None, c_vendas_antes = None, c_vendas_depois = None\<rparr>]
           else []))"

fun diff_loop :: "int \<Rightarrow> (string \<rightharpoonup> anuncio) \<Rightarrow> anuncio list \<Rightarrow> db \<Rightarrow> db" where
  "diff_loop now prevMap [] d = d"
| "diff_loop now prevMap (current # rest) d =
     diff_loop now prevMap rest (fold (insert_alteracao now) (changes_of prevMap current) d)"

text \<open>Lines 288 to 305: the map of the previous rows, then the loop over the current ones.\<close>

definition detect_changes :: "int \<Rightarrow> anuncio list \<Rightarrow> anuncio list \<Rightarrow> db \<Rightarrow> db" where
  "detect_changes now currentItems prevItems d =
     diff_loop now (prevMap_of prevItems) currentItems d"

text \<open>
  The change records a detection run emits: the rows it appended to \<^verbatim>\<open>alteracoes\<close>,
  and the values of a stored row without its rowid and timestamp.
\<close>

definition emitted :: "int \<Rightarrow> anuncio list \<Rightarrow> anuncio list \<Rightarrow> db \<Rightarrow> alteracao list" where
  "emitted now currentItems prevItems d =
     drop (length (alteracoes d)) (alteracoes (detect_changes now currentItems prevItems d))"

definition values_of :: "alteracao \<Rightarrow> change" where
  "values_of r =
     \<lparr>c_ml_item_id = al_ml_item_id r, c_tipo = tipo r,
      c_valor_anterior = valor_anterior r, c_valor_novo = valor_novo r,
      c_variacao_pct = variacao_pct r, c_vendas_antes = vendas_antes r,
      c_vendas_depois = vendas_depois r\<rparr>"

text \<open>The listing a stored row holds: the values the INSERT bound for it.\<close>

definition listing_of :: "anuncio \<Rightarrow> listing" where
  "listing_of r =
     \<lparr>item_id = Some (ml_item_id r), title = titulo r, price = preco r,
      available_quantity = estoque r, sold_quantity = vendidos r,
      category_id = categoria r, item_status = status r, thumbnail = thumbnail_url r\<rparr>"

section \<open>The capture handler\<close>

text \<open>
  \<^verbatim>\<open>listings.reduce((sum, i) => sum + (i.sold_quantity || 0), 0)\<close>. The sold counts
  are integers; their sums are exact in binary64 up to \<open>2^53\<close>, which is taken for
  granted here.
\<close>

definition totalVendas_of :: "listing list \<Rightarrow> int" where
  "totalVendas_of listings =
     fold (\<lambda>i sum. sum + (case sold_quantity i of None \<Rightarrow> 0 | Some q \<Rightarrow> q)) listings 0"

text \<open>
  \<^verbatim>\<open>POST /api/history/capture\<close> from line 263 on, with the database open: the fetched
  \<^verbatim>\<open>listings\<close> and \<^verbatim>\<open>seller.id\<close> are its inputs, \<open>now\<close> is the clock of the request.
  A throw is caught at line 309 and answered with status 500; what the statements
  before it wrote stays written.
\<close>

definition capture :: "int \<Rightarrow> string option \<Rightarrow> listing list \<Rightarrow> db \<Rightarrow> response \<times> db" where
  "capture now seller listings d =
     (case insert_snapshot now seller (int (length listings)) (totalVendas_of listings) d of
        (Inl (SqliteError m), d1) \<Rightarrow> (Status500 m, d1)
      | (Inr snapshotId, d1) \<Rightarrow>
          (case insert_anuncios snapshotId listings d1 of
             (Some (SqliteError m), d2) \<Rightarrow> (Status500 m, d2)
           | (None, d2) \<Rightarrow>
               (Success snapshotId (length listings),
                (case prevSnapshot d2 snapshotId of
                   None \<Rightarrow> d2
                 | Some prev \<Rightarrow>
                     detect_changes now (anuncios_of d2 snapshotId) (anuncios_of d2 prev) d2))))"

section \<open>The changes query\<close>














section \<open>Example data\<close>

text \<open>
  An empty database, and a listing with the four fields the history reads; its price
  is the number the literal \<open>p\<close> parses to.
\<close>

definition empty_db :: db where
  "empty_db =
     \<lparr>snapshots = [], snapshots_seq = 0, anuncios = [], anuncios_seq = 0,
      alteracoes = [], alteracoes_seq = 0\<rparr>"

definition item :: "string \<Rightarrow> string \<Rightarrow> rat \<Rightarrow> int \<Rightarrow> listing" where
  "item i t p q =
     \<lparr>item_id = Some i, title = Some t, price = Some (fl p), available_quantity = None,
      sold_quantity = Some q, category_id = None, item_status = None, thumbnail = None\<rparr>"

text \<open>The row of \<^verbatim>\<open>anuncios\<close> with rowid \<open>r\<close> that snapshot \<open>s\<close> holds for such a listing.\<close>

definition item_row :: "nat \<Rightarrow> nat \<Rightarrow> string \<Rightarrow> string \<Rightarrow> rat \<Rightarrow> int \<Rightarrow> anuncio" where
  "item_row r s i t p q =
     \<lparr>an_id = r, snapshot_id = Some s, ml_item_id = i, titulo = Some t, preco = Some (fl p),
      estoque = None, vendidos = Some q, categoria = None, status = None,
      thumbnail_url = None\<rparr>"

section \<open>Properties of the binary64 arithmetic\<close>

text \<open>
  The exponent search is unfolded by hand in the proofs below; as rewrite rules its
  equations would not terminate.
\<close>

declare exp_down.simps [simp del]
declare exp_up.simps [simp del]

subsection \<open>Powers of two and the exponent\<close>

lemma pow2_powi: "pow2 e = 2 powi e"
  by (simp add: pow2_def power_int_def inverse_eq_divide power_one_over)

lemma pow2_pos: "0 < pow2 e"
  by (simp add: pow2_powi)

lemma pow2_add: "pow2 (a + b) = pow2 a * pow2 b"
  by (simp add: pow2_powi power_int_add)

lemma pow2_mono: "a \<le> b \<Longrightarrow> pow2 a \<le> pow2 b"
  by (simp add: pow2_powi power_int_increasing)

lemma pow2_strict_mono: "a < b \<Longrightarrow> pow2 a < pow2 b"
  by (simp add: pow2_powi power_int_strict_increasing)

lemma pow2_less_iff: "pow2 a < pow2 b \<longleftrightarrow> a < b"
  by (metis pow2_mono pow2_strict_mono linorder_not_less)

lemma pow2_Suc: "pow2 (e + 1) = 2 * pow2 e"
  using power_int_add[of "2::rat" e 1] by (simp add: pow2_powi)

lemma pow2_pred: "pow2 (e - 1) = pow2 e / 2"
  using pow2_Suc[of "e - 1"] by simp

lemma exp_down_spec:
  assumes "1 \<le> x" and "e \<le> 1024"
  shows "e \<le> exp_down x e \<and> exp_down x e \<le> 1024
     \<and> pow2 (exp_down x e - e) \<le> x
     \<and> (exp_down x e < 1024 \<longrightarrow> x < pow2 (exp_down x e - e + 1))"
  using assms
proof (induction x e rule: exp_down.induct)
  case (1 x e)
  show ?case
  proof (cases "2 \<le> x \<and> e < 1024")
    case True
    then have eq: "exp_down x e = exp_down (x / 2) (e + 1)"
      by (subst exp_down.simps) simp
    have ih: "e + 1 \<le> exp_down (x / 2) (e + 1) \<and> exp_down (x / 2) (e + 1) \<le> 1024
       \<and> pow2 (exp_down (x / 2) (e + 1) - (e + 1)) \<le> x / 2
       \<and> (exp_down (x / 2) (e + 1) < 1024 \<longrightarrow>
            x / 2 < pow2 (exp_down (x / 2) (e + 1) - (e + 1) + 1))"
      using "1.IH"[OF True] True by simp
    define r where "r = exp_down (x / 2) (e + 1)"
    have a: "pow2 (r - e) = 2 * pow2 (r - (e + 1))"
      using pow2_Suc[of "r - (e + 1)"] by (simp add: algebra_simps)
    have b: "pow2 (r - e + 1) = 2 * pow2 (r - (e + 1) + 1)"
      using pow2_Suc[of "r - (e + 1) + 1"] by (simp add: algebra_simps)
    show ?thesis
      unfolding eq using ih unfolding r_def[symmetric] a b by auto
  next
    case False
    then have eq: "exp_down x e = e"
      by (subst exp_down.simps) auto
    show ?thesis
      unfolding eq using False "1.prems" by (auto simp: pow2_def)
  qed
qed

lemma exp_up_spec:
  assumes "0 < x" and "- 1022 \<le> e"
  shows "exp_up x e \<le> e \<and> - 1022 \<le> exp_up x e
     \<and> (x < 1 \<longrightarrow> x < pow2 (exp_up x e - e + 1))
     \<and> (x < 1 \<and> - 1022 < exp_up x e \<longrightarrow> pow2 (exp_up x e - e) \<le> x)"
  using assms
proof (induction x e rule: exp_up.induct)
  case (1 x e)
  show ?case
  proof (cases "x < 1 \<and> - 1022 < e")
    case True
    then have eq: "exp_up x e = exp_up (x * 2) (e - 1)"
      by (subst exp_up.simps) simp
    define r where "r = exp_up (x * 2) (e - 1)"
    have ih: "r \<le> e - 1 \<and> - 1022 \<le> r
       \<and> (x * 2 < 1 \<longrightarrow> x * 2 < pow2 (r - (e - 1) + 1))
       \<and> (x * 2 < 1 \<and> - 1022 < r \<longrightarrow> pow2 (r - (e - 1)) \<le> x * 2)"
      unfolding r_def using "1.IH"[OF True] True "1.prems" by simp
    have a: "pow2 (r - (e - 1)) = 2 * pow2 (r - e)"
      using pow2_Suc[of "r - e"] by (simp add: algebra_simps)
    have b: "pow2 (r - (e - 1) + 1) = 2 * pow2 (r - e + 1)"
      using pow2_Suc[of "r - e + 1"] by (simp add: algebra_simps)
    show ?thesis
    proof (cases "x * 2 < 1")
      case True
      then show ?thesis
        unfolding eq r_def[symmetric] using ih unfolding a b by auto
    next
      case False
      then have "r = e - 1"
        unfolding r_def by (subst exp_up.simps) auto
      then show ?thesis
        unfolding eq r_def[symmetric] using False True by (auto simp: pow2_def)
    qed
  next
    case False
    then have eq: "exp_up x e = e"
      by (subst exp_up.simps) auto
    show ?thesis
      unfolding eq using False "1.prems" by (auto simp: pow2_def)
  qed
qed

lemma exponent_spec:
  assumes "0 < x"
  shows "- 1022 \<le> exponent x \<and> exponent x \<le> 1024
     \<and> (exponent x < 1024 \<longrightarrow> x < pow2 (exponent x + 1))
     \<and> (- 1022 < exponent x \<longrightarrow> pow2 (exponent x) \<le> x)"
proof (cases "1 \<le> x")
  case True
  then show ?thesis
    using exp_down_spec[of x 0] by (simp add: exponent_def)
next
  case False
  then show ?thesis
    using exp_up_spec[of x 0] assms by (simp add: exponent_def)
qed

lemma exponent_normal:
  assumes "pow2 e \<le> x" and "x < pow2 (e + 1)" and "- 1022 \<le> e" and "e \<le> 1023"
  shows "exponent x = e"
proof -
  have x: "0 < x"
    using assms(1) pow2_pos[of e] by linarith
  note s = exponent_spec[OF x]
  have le: "exponent x \<le> e"
  proof (cases "- 1022 < exponent x")
    case True
    then have "pow2 (exponent x) < pow2 (e + 1)"
      using s assms(2) by linarith
    then show ?thesis
      by (simp add: pow2_less_iff)
  next
    case False
    then show ?thesis
      using s assms(3) by linarith
  qed
  have ge: "e \<le> exponent x"
  proof (cases "exponent x < 1024")
    case True
    then have "pow2 e < pow2 (exponent x + 1)"
      using s assms(1) by linarith
    then show ?thesis
      by (simp add: pow2_less_iff)
  next
    case False
    then show ?thesis
      using s assms(4) by linarith
  qed
  show ?thesis
    using le ge by simp
qed

subsection \<open>Rounding to the nearest number\<close>

lemma round_even_of_int: "round_even (of_int k) = k"
  by (simp add: round_even_def)

lemma round_even_le: "x \<le> of_int k \<Longrightarrow> round_even x \<le> k"
proof -
  assume h: "x \<le> of_int k"
  have f: "\<lfloor>x\<rfloor> \<le> k"
    using h by (metis floor_mono floor_of_int)
  show ?thesis
  proof (cases "\<lfloor>x\<rfloor> = k")
    case True
    then have "x = of_int k"
      using h by (metis of_int_floor_le order_antisym)
    then show ?thesis
      by (simp add: round_even_of_int)
  next
    case False
    then have "\<lfloor>x\<rfloor> + 1 \<le> k"
      using f by simp
    then show ?thesis
      by (auto simp: round_even_def Let_def)
  qed
qed

lemma round_even_ge: "of_int k \<le> x \<Longrightarrow> k \<le> round_even x"
proof -
  assume "of_int k \<le> x"
  then have "k \<le> \<lfloor>x\<rfloor>"
    by (simp add: le_floor_iff)
  then show ?thesis
    by (auto simp: round_even_def Let_def)
qed

lemma nearest_pos:
  "0 < x \<Longrightarrow> nearest x = of_int (round_even (x / pow2 (exponent x - 52))) * pow2 (exponent x - 52)"
  by (simp add: nearest_def Let_def)

lemma nearest_minus: "nearest (- x) = - nearest x"
  by (simp add: nearest_def Let_def)

lemma nearest_normal:
  assumes "pow2 e \<le> x" and "x < pow2 (e + 1)" and "- 1022 \<le> e" and "e \<le> 1023"
  shows "nearest x = of_int (round_even (x / pow2 (e - 52))) * pow2 (e - 52)"
    and "pow2 e \<le> nearest x" and "nearest x \<le> pow2 (e + 1)"
proof -
  have x: "0 < x"
    using assms(1) pow2_pos[of e] by linarith
  have e: "exponent x = e"
    using assms by (rule exponent_normal)
  let ?q = "pow2 (e - 52)"
  have q: "0 < ?q"
    by (rule pow2_pos)
  show n: "nearest x = of_int (round_even (x / ?q)) * ?q"
    using nearest_pos[OF x] e by simp
  have c52: "pow2 52 = of_int (2 ^ 52)" and c53: "pow2 53 = of_int (2 ^ 53)"
    by (simp_all add: pow2_def)
  have "e = 52 + (e - 52)"
    by simp
  then have "pow2 e = pow2 (52 + (e - 52))"
    by (rule arg_cong)
  then have lo: "pow2 e = of_int (2 ^ 52) * ?q"
    by (simp only: pow2_add c52)
  have "e + 1 = 53 + (e - 52)"
    by simp
  then have "pow2 (e + 1) = pow2 (53 + (e - 52))"
    by (rule arg_cong)
  then have hi: "pow2 (e + 1) = of_int (2 ^ 53) * ?q"
    by (simp only: pow2_add c53)
  have "of_int (2 ^ 52) \<le> x / ?q"
    using assms(1) q unfolding lo by (simp add: pos_le_divide_eq)
  then have "2 ^ 52 \<le> round_even (x / ?q)"
    by (rule round_even_ge)
  then have "of_int (2 ^ 52) * ?q \<le> of_int (round_even (x / ?q)) * ?q"
    using q by (simp add: mult_le_cancel_right)
  then show "pow2 e \<le> nearest x"
    unfolding n lo .
  have "x / ?q \<le> of_int (2 ^ 53)"
    using assms(2) q unfolding hi by (simp add: pos_divide_le_eq)
  then have "round_even (x / ?q) \<le> 2 ^ 53"
    by (rule round_even_le)
  then have "of_int (round_even (x / ?q)) * ?q \<le> of_int (2 ^ 53) * ?q"
    using q by (simp add: mult_le_cancel_right)
  then show "nearest x \<le> pow2 (e + 1)"
    unfolding n hi .
qed

lemma fl_normal:
  assumes "pow2 e \<le> x" and "x < pow2 (e + 1)" and "- 1022 \<le> e" and "e \<le> 1022"
  shows "fl x = Num (of_int (round_even (x / pow2 (e - 52))) * pow2 (e - 52))"
proof -
  have e: "e \<le> 1023"
    using assms(4) by simp
  have x: "0 < x"
    using assms(1) pow2_pos[of e] by linarith
  have n: "0 < nearest x"
    using nearest_normal(2)[OF assms(1,2,3) e] pow2_pos[of e] by linarith
  have "nearest x \<le> pow2 (e + 1)"
    by (rule nearest_normal(3)[OF assms(1,2,3) e])
  also have "pow2 (e + 1) < pow2 1024"
    using assms(4) by (simp add: pow2_less_iff)
  finally have "\<not> pow2 1024 \<le> \<bar>nearest x\<bar>"
    using n by simp
  then show ?thesis
    using nearest_normal(1)[OF assms(1,2,3) e] by (simp add: fl_def)
qed

lemma fl_0: "fl 0 = Num 0"
  using pow2_pos[of 1024] by (simp add: fl_def nearest_def)

lemma fl_minus:
  "fl (- x) = (case fl x of Num v \<Rightarrow> Num (- v) | Infinity \<Rightarrow> MinusInfinity
                | MinusInfinity \<Rightarrow> Infinity | NaN \<Rightarrow> NaN)"
proof (cases "x = 0")
  case True
  then show ?thesis by (simp add: fl_0)
next
  case False
  then show ?thesis
    by (auto simp: fl_def nearest_minus)
qed

lemma fl_of_nat:
  assumes "n < 2 ^ 53"
  shows "fl (of_nat n) = Num (of_nat n)"
proof (cases "n = 0")
  case True
  then show ?thesis by (simp add: fl_0)
next
  case False
  then have "1 \<le> n" by simp
  then obtain k where k: "2 ^ k \<le> n" "n < 2 ^ (k + 1)"
    using ex_power_ivl1[of 2 n] by auto
  have k52: "k \<le> 52"
  proof (rule ccontr)
    assume "\<not> k \<le> 52"
    then have "(2::nat) ^ 53 \<le> 2 ^ k"
      by (intro power_increasing) auto
    then show False
      using k(1) assms by linarith
  qed
  let ?x = "of_nat n :: rat"
  have p: "pow2 (int k) = 2 ^ k" "pow2 (int k + 1) = 2 ^ (k + 1)"
    by (simp_all add: pow2_def nat_add_distrib)
  have lo: "pow2 (int k) \<le> ?x"
    unfolding p using k(1) by (metis of_nat_le_iff of_nat_numeral of_nat_power)
  have hi: "?x < pow2 (int k + 1)"
    unfolding p using k(2) by (metis of_nat_less_iff of_nat_numeral of_nat_power)
  have q: "pow2 (int k - 52) = 1 / 2 ^ (52 - k)"
    using k52 by (auto simp: pow2_def nat_diff_distrib)
  have "?x / pow2 (int k - 52) = of_int (int n * 2 ^ (52 - k))"
    unfolding q by simp
  then have r: "round_even (?x / pow2 (int k - 52)) = int n * 2 ^ (52 - k)"
    by (simp only: round_even_of_int)
  have "fl ?x = Num (of_int (round_even (?x / pow2 (int k - 52))) * pow2 (int k - 52))"
    using lo hi k52 by (intro fl_normal) auto
  also have "of_int (round_even (?x / pow2 (int k - 52))) * pow2 (int k - 52) = ?x"
    by (simp only: r) (simp add: q)
  finally show ?thesis .
qed

lemma fl_numeral: "numeral k < (2::nat) ^ 53 \<Longrightarrow> fl (numeral k) = Num (numeral k)"
  using fl_of_nat[of "numeral k"] by simp

lemma fl_1: "fl 1 = Num 1"
  using fl_of_nat[of 1] by simp

subsection \<open>Rounding to two decimals\<close>

lemma floor_rat_numeral:
  "\<lfloor>numeral a / numeral b :: rat\<rfloor> = numeral a div numeral b"
  by (metis floor_divide_of_int_eq of_int_numeral)


lemma floor_half_near:
  fixes y :: rat
  shows "\<bar>of_int \<lfloor>y * 100 + 1 / 2\<rfloor> / 100 - y\<bar> \<le> 1 / 200"
proof -
  define n :: rat where "n = of_int \<lfloor>y * 100 + 1 / 2\<rfloor>"
  have "n \<le> y * 100 + 1 / 2" "y * 100 + 1 / 2 < n + 1"
    unfolding n_def by linarith+
  then have "\<bar>n / 100 - y\<bar> \<le> 1 / 200"
    by linarith
  then show ?thesis
    unfolding n_def .
qed

lemma round2_near: "\<bar>round2 x - x\<bar> \<le> 1 / 200"
proof (cases "x < 0")
  case True
  have "\<bar>round2 x - x\<bar> = \<bar>of_int \<lfloor>(- x) * 100 + 1 / 2\<rfloor> / 100 - (- x)\<bar>"
    using True by (simp add: round2_def abs_minus_commute)
  then show ?thesis
    using floor_half_near[of "- x"] by simp
next
  case False
  then show ?thesis
    using floor_half_near[of x] by (simp add: round2_def)
qed

lemma round2_hundredths: "\<exists>n::int. round2 x = of_int n / 100"
  unfolding round2_def
  by (metis of_int_minus minus_divide_left)

subsection \<open>Numbers used in the examples\<close>

text \<open>
  The binary64 numbers nearest to the decimal literals of the examples, each checked
  against the interval of its exponent.
\<close>

lemmas fl_eval = pow2_def round_even_def Let_def floor_rat_numeral

lemma fl_hundredth: "fl (1 / 100) = Num (5764607523034235 / 576460752303423488)"
  using fl_normal[of "- 7" "1 / 100"] by (simp add: fl_eval)

lemma fl_fiftieth: "fl (1 / 50) = Num (5764607523034235 / 288230376151711744)"
  using fl_normal[of "- 6" "1 / 50"] by (simp add: fl_eval)

lemma fl_100_01: "fl (10001 / 100) = Num (7037578105208177 / 70368744177664)"
  using fl_normal[of 6 "10001 / 100"] by (simp add: fl_eval)

lemma fl_100_005: "fl (20001 / 200) = Num (879653282685911 / 8796093022208)"
  using fl_normal[of 6 "20001 / 200"] by (simp add: fl_eval)

lemma fl_1_60: "fl (8 / 5) = Num (3602879701896397 / 2251799813685248)"
  using fl_normal[of 0 "8 / 5"] by (simp add: fl_eval)

lemma fl_1_85: "fl (37 / 20) = Num (4165829655317709 / 2251799813685248)"
  using fl_normal[of 0 "37 / 20"] by (simp add: fl_eval)

lemma nearest_of_nat: "n < 2 ^ 53 \<Longrightarrow> nearest (of_nat n) = of_nat n"
  using fl_of_nat[of n] by (simp add: fl_def split: if_splits)

lemma nearest_numeral: "numeral k < (2::nat) ^ 53 \<Longrightarrow> nearest (numeral k) = numeral k"
  using nearest_of_nat[of "numeral k"] by simp

lemmas fl_literals = fl_0 fl_1 fl_numeral fl_hundredth fl_fiftieth fl_100_01 fl_100_005
  fl_1_60 fl_1_85

subsection \<open>The threshold 0.01\<close>

lemma nearest_nonneg: "0 < x \<Longrightarrow> 0 \<le> nearest x"
proof -
  assume x: "0 < x"
  have "0 \<le> x / pow2 (exponent x - 52)"
    using x pow2_pos[of "exponent x - 52"] by simp
  then have "0 \<le> round_even (x / pow2 (exponent x - 52))"
    using round_even_ge[of 0] by simp
  then show ?thesis
    using pow2_pos[of "exponent x - 52"] by (simp add: nearest_pos[OF x])
qed

lemma nearest_below_threshold:
  assumes "0 < a" and "a \<le> 5764607523034235 / 576460752303423488"
  shows "nearest a \<le> 5764607523034235 / 576460752303423488"
proof -
  define E where "E = exponent a"
  define q where "q = pow2 (E - 52)"
  define k where "k = nat (- 7 - E)"
  note s = exponent_spec[OF assms(1), folded E_def]
  have q: "0 < q"
    unfolding q_def by (rule pow2_pos)
  have E: "E \<le> - 7"
  proof (cases "- 1022 < E")
    case True
    then have "pow2 E \<le> a"
      using s by simp
    also have "a < pow2 (- 6)"
      using assms(2) by (simp add: pow2_def)
    finally show ?thesis
      by (simp add: pow2_less_iff)
  next
    case False
    then show ?thesis by simp
  qed
  have "- 59 = (- 7 - E) + (E - 52)"
    by simp
  then have "pow2 (- 59) = pow2 ((- 7 - E) + (E - 52))"
    by (rule arg_cong)
  then have "pow2 (- 59) = pow2 (- 7 - E) * q"
    by (simp only: pow2_add q_def)
  moreover have "pow2 (- 7 - E) = of_int (2 ^ k)"
    using E by (simp add: pow2_def k_def)
  ultimately have p: "pow2 (- 59) = of_int (2 ^ k) * q"
    by simp
  have t: "5764607523034235 / 576460752303423488 = of_int (5764607523034235 * 2 ^ k) * q"
  proof -
    have "(5764607523034235 / 576460752303423488 :: rat) = 5764607523034235 * pow2 (- 59)"
      by (simp add: pow2_def)
    also have "\<dots> = 5764607523034235 * (of_int (2 ^ k) * q)"
      by (simp only: p)
    also have "\<dots> = of_int (5764607523034235 * 2 ^ k) * q"
      by simp
    finally show ?thesis .
  qed
  have "a / q \<le> of_int (5764607523034235 * 2 ^ k)"
    using assms(2) q unfolding t by (simp add: pos_divide_le_eq)
  then have "round_even (a / q) \<le> 5764607523034235 * 2 ^ k"
    by (rule round_even_le)
  then have "(of_int (round_even (a / q)) :: rat) \<le> of_int (5764607523034235 * 2 ^ k)"
    by (simp only: of_int_le_iff)
  then have "of_int (round_even (a / q)) * q \<le> of_int (5764607523034235 * 2 ^ k) * q"
    using q by (simp only: mult_le_cancel_right) simp
  then show ?thesis
    unfolding t[symmetric] using nearest_pos[OF assms(1)] by (simp add: E_def q_def)
qed

lemma nearest_above_threshold:
  assumes "5764607523034236 / 576460752303423488 \<le> a"
  shows "5764607523034236 / 576460752303423488 \<le> nearest a"
proof -
  define E where "E = exponent a"
  define q where "q = pow2 (E - 52)"
  have a: "0 < a"
    using assms by simp
  note s = exponent_spec[OF a, folded E_def]
  have q: "0 < q"
    unfolding q_def by (rule pow2_pos)
  have n: "nearest a = of_int (round_even (a / q)) * q"
    using nearest_pos[OF a] by (simp add: E_def q_def)
  have E: "- 7 \<le> E"
  proof (rule ccontr)
    assume "\<not> - 7 \<le> E"
    then have e: "E + 1 \<le> - 7" "E < 1024"
      by simp_all
    then have "a < pow2 (E + 1)"
      using s by simp
    also have "pow2 (E + 1) \<le> pow2 (- 7)"
      using e(1) by (rule pow2_mono)
    finally show False
      using assms by (simp add: pow2_def)
  qed
  show ?thesis
  proof (cases "E = - 7")
    case True
    have qv: "q = 1 / 576460752303423488"
      unfolding q_def True by (simp add: pow2_def)
    have "of_int 5764607523034236 \<le> a / q"
      using assms unfolding qv by simp
    then have "5764607523034236 \<le> round_even (a / q)"
      by (rule round_even_ge)
    then have "of_int 5764607523034236 * q \<le> of_int (round_even (a / q)) * q"
      using q by (simp only: mult_le_cancel_right) simp
    then show ?thesis
      unfolding n by (simp add: qv)
  next
    case False
    then have E6: "- 6 \<le> E"
      using E by simp
    then have lo: "pow2 E \<le> a"
      using s by simp
    have c52: "pow2 52 = of_int (2 ^ 52)"
      by (simp add: pow2_def)
    have "E = 52 + (E - 52)"
      by simp
    then have "pow2 E = pow2 (52 + (E - 52))"
      by (rule arg_cong)
    then have pe: "pow2 E = of_int (2 ^ 52) * q"
      by (simp only: pow2_add c52 q_def)
    have "of_int (2 ^ 52) \<le> a / q"
      using lo q unfolding pe by (simp add: pos_le_divide_eq)
    then have "2 ^ 52 \<le> round_even (a / q)"
      by (rule round_even_ge)
    then have "of_int (2 ^ 52) * q \<le> of_int (round_even (a / q)) * q"
      using q by (simp add: mult_le_cancel_right)
    then have "pow2 E \<le> nearest a"
      unfolding n pe .
    moreover have "pow2 (- 6) \<le> pow2 E"
      using E6 by (rule pow2_mono)
    ultimately show ?thesis
      by (simp add: pow2_def)
  qed
qed

text \<open>The threshold test on the exact difference \<open>z\<close> of two finite prices.\<close>

lemma threshold_only_if:
  assumes "js_gt (js_abs (fl z)) (fl (1 / 100))"
  shows "5764607523034235 / 576460752303423488 < \<bar>z\<bar>"
proof (rule ccontr)
  assume "\<not> 5764607523034235 / 576460752303423488 < \<bar>z\<bar>"
  then have le: "\<bar>z\<bar> \<le> 5764607523034235 / 576460752303423488"
    by simp
  have small: "\<not> pow2 1024 \<le> 5764607523034235 / 576460752303423488"
  proof -
    have "(5764607523034235 / 576460752303423488 :: rat) < pow2 0"
      by (simp add: pow2_def)
    also have "pow2 0 < pow2 1024"
      by (simp add: pow2_less_iff)
    finally show ?thesis by simp
  qed
  have abs: "\<bar>nearest z\<bar> \<le> 5764607523034235 / 576460752303423488"
  proof (cases "z = 0")
    case True
    then show ?thesis by (simp add: nearest_def)
  next
    case False
    then have a: "0 < \<bar>z\<bar>" by simp
    have "nearest \<bar>z\<bar> \<le> 5764607523034235 / 576460752303423488"
      using a le by (rule nearest_below_threshold)
    moreover have "\<bar>nearest z\<bar> = nearest \<bar>z\<bar>"
      using nearest_nonneg[OF a] nearest_minus[of z]
      by (cases "0 \<le> z") (simp_all add: abs_if)
    ultimately show ?thesis by simp
  qed
  then have "fl z = Num (nearest z)"
    using small by (simp add: fl_def)
  moreover have "js_gt (js_abs (fl z)) (Num (5764607523034235 / 576460752303423488))"
    using assms by (simp only: fl_hundredth)
  ultimately show False
    using abs by simp
qed

lemma threshold_if:
  assumes "5764607523034236 / 576460752303423488 \<le> \<bar>z\<bar>"
  shows "js_gt (js_abs (fl z)) (fl (1 / 100))"
proof -
  have a: "0 < \<bar>z\<bar>"
    using assms by simp
  have n: "5764607523034236 / 576460752303423488 \<le> nearest \<bar>z\<bar>"
    using assms by (rule nearest_above_threshold)
  have "\<bar>nearest z\<bar> = nearest \<bar>z\<bar>"
    using nearest_nonneg[OF a] nearest_minus[of z]
    by (cases "0 \<le> z") (simp_all add: abs_if)
  then have big: "5764607523034235 / 576460752303423488 < \<bar>nearest z\<bar>"
    using n by simp
  have "fl z = Num (nearest z) \<or> fl z = Infinity \<or> fl z = MinusInfinity"
    by (simp add: fl_def)
  then have "js_gt (js_abs (fl z)) (Num (5764607523034235 / 576460752303423488))"
    using big by auto
  then show ?thesis
    by (simp only: fl_hundredth)
qed

section \<open>Properties of the change detection\<close>

subsection \<open>What a detection run writes\<close>

lemma fold_insert_alteracao:
  "\<exists>rows. alteracoes (fold (insert_alteracao now) cs d) = alteracoes d @ rows
     \<and> map values_of rows = cs \<and> (\<forall>r\<in>set rows. detectado_em r = now)"
proof (induction cs arbitrary: d)
  case Nil
  then show ?case by simp
next
  case (Cons c cs)
  obtain rows where r: "alteracoes (fold (insert_alteracao now) cs (insert_alteracao now c d))
      = alteracoes (insert_alteracao now c d) @ rows" "map values_of rows = cs"
      "\<forall>r\<in>set rows. detectado_em r = now"
    using Cons.IH by blast
  obtain row where row: "alteracoes (insert_alteracao now c d) = alteracoes d @ [row]"
     "values_of row = c" "detectado_em row = now"
    by (simp add: insert_alteracao_def Let_def values_of_def)
  show ?case
    by (rule exI[of _ "row # rows"]) (simp add: r row)
qed

lemma fold_insert_alteracao_others:
  "snapshots (fold (insert_alteracao now) cs d) = snapshots d
   \<and> snapshots_seq (fold (insert_alteracao now) cs d) = snapshots_seq d
   \<and> anuncios (fold (insert_alteracao now) cs d) = anuncios d
   \<and> anuncios_seq (fold (insert_alteracao now) cs d) = anuncios_seq d"
  by (induction cs arbitrary: d) (simp_all add: insert_alteracao_def Let_def)

lemma diff_loop_rows:
  "\<exists>rows. alteracoes (diff_loop now pm cur d) = alteracoes d @ rows
     \<and> map values_of rows = concat (map (changes_of pm) cur)
     \<and> (\<forall>r\<in>set rows. detectado_em r = now)"
proof (induction cur arbitrary: d)
  case Nil
  then show ?case by simp
next
  case (Cons c cur)
  let ?d1 = "fold (insert_alteracao now) (changes_of pm c) d"
  obtain r1 where r1: "alteracoes ?d1 = alteracoes d @ r1" "map values_of r1 = changes_of pm c"
     "\<forall>r\<in>set r1. detectado_em r = now"
    using fold_insert_alteracao by blast
  obtain r2 where r2: "alteracoes (diff_loop now pm cur ?d1) = alteracoes ?d1 @ r2"
     "map values_of r2 = concat (map (changes_of pm) cur)" "\<forall>r\<in>set r2. detectado_em r = now"
    using Cons.IH by blast
  show ?case
    by (rule exI[of _ "r1 @ r2"]) (auto simp: r1 r2)
qed

lemma diff_loop_others:
  "snapshots (diff_loop now pm cur d) = snapshots d
   \<and> snapshots_seq (diff_loop now pm cur d) = snapshots_seq d
   \<and> anuncios (diff_loop now pm cur d) = anuncios d
   \<and> anuncios_seq (diff_loop now pm cur d) = anuncios_seq d"
  by (induction cur arbitrary: d) (simp_all add: fold_insert_alteracao_others)

lemma alteracoes_detect_changes:
  "alteracoes (detect_changes now cur prev d) = alteracoes d @ emitted now cur prev d"
proof -
  obtain rows where "alteracoes (detect_changes now cur prev d) = alteracoes d @ rows"
    unfolding detect_changes_def using diff_loop_rows by blast
  then show ?thesis by (simp add: emitted_def)
qed

lemma values_of_emitted:
  "map values_of (emitted now cur prev d) = concat (map (changes_of (prevMap_of prev)) cur)"
proof -
  obtain rows where "alteracoes (detect_changes now cur prev d) = alteracoes d @ rows"
     "map values_of rows = concat (map (changes_of (prevMap_of prev)) cur)"
    unfolding detect_changes_def using diff_loop_rows by blast
  then show ?thesis by (simp add: emitted_def)
qed

lemma emitted_row:
  assumes "r \<in> set (emitted now cur prev d)"
  shows "\<exists>c\<in>set cur. values_of r \<in> set (changes_of (prevMap_of prev) c)"
proof -
  have "values_of r \<in> set (map values_of (emitted now cur prev d))"
    using assms by simp
  then show ?thesis
    unfolding values_of_emitted by auto
qed

subsection \<open>The map of the previous rows\<close>

lemma fold_upd_Some:
  "fold (\<lambda>i m. m(ml_item_id i \<mapsto> i)) ps m0 k = Some p \<Longrightarrow>
     (p \<in> set ps \<and> ml_item_id p = k) \<or> m0 k = Some p"
proof (induction ps arbitrary: m0)
  case Nil
  then show ?case by simp
next
  case (Cons a ps)
  from Cons.prems have "fold (\<lambda>i m. m(ml_item_id i \<mapsto> i)) ps (m0(ml_item_id a \<mapsto> a)) k = Some p"
    by (simp only: fold_simps)
  from Cons.IH[OF this] show ?case
    by (auto split: if_splits)
qed

lemma fold_upd_None:
  "k \<notin> ml_item_id ` set ps \<Longrightarrow> fold (\<lambda>i m. m(ml_item_id i \<mapsto> i)) ps m0 k = m0 k"
proof (induction ps arbitrary: m0)
  case Nil
  then show ?case by simp
next
  case (Cons a ps)
  then have k: "k \<notin> ml_item_id ` set ps" "k \<noteq> ml_item_id a"
    by auto
  have "fold (\<lambda>i m. m(ml_item_id i \<mapsto> i)) ps (m0(ml_item_id a \<mapsto> a)) k
      = (m0(ml_item_id a \<mapsto> a)) k"
    using k(1) by (rule Cons.IH)
  also have "\<dots> = m0 k"
    using k(2) by simp
  finally show ?case
    by (simp only: fold_simps)
qed

lemma fold_upd_dom:
  "k \<in> ml_item_id ` set ps \<Longrightarrow> \<exists>p. fold (\<lambda>i m. m(ml_item_id i \<mapsto> i)) ps m0 k = Some p"
proof (induction ps arbitrary: m0)
  case Nil then show ?case by simp
next
  case (Cons a ps)
  show ?case
  proof (cases "k \<in> ml_item_id ` set ps")
    case True
    from Cons.IH[OF this] show ?thesis by (simp only: fold_simps)
  next
    case False
    then have "k = ml_item_id a" using Cons.prems by auto
    then have "fold (\<lambda>i m. m(ml_item_id i \<mapsto> i)) ps (m0(ml_item_id a \<mapsto> a)) k = Some a"
      using False fold_upd_None[of k ps "m0(ml_item_id a \<mapsto> a)"] by simp
    then show ?thesis
      by (simp only: fold_simps) blast
  qed
qed

lemma prevMap_of_Some:
  "prevMap_of prev k = Some p \<Longrightarrow> p \<in> set prev \<and> ml_item_id p = k"
  unfolding prevMap_of_def using fold_upd_Some[of prev Map.empty k p] by simp

lemma prevMap_of_None:
  "prevMap_of prev k = None \<longleftrightarrow> k \<notin> ml_item_id ` set prev"
  unfolding prevMap_of_def
  using fold_upd_None[of k prev Map.empty] fold_upd_dom[of k prev Map.empty]
  by auto

lemma prevMap_of_distinct:
  assumes "distinct (map ml_item_id prev)" "p \<in> set prev"
  shows "prevMap_of prev (ml_item_id p) = Some p"
proof -
  obtain q where q: "prevMap_of prev (ml_item_id p) = Some q"
    using assms(2) prevMap_of_None[of prev "ml_item_id p"] by (cases "prevMap_of prev (ml_item_id p)") auto
  then have "q \<in> set prev" "ml_item_id q = ml_item_id p"
    using prevMap_of_Some by blast+
  then have "q = p"
    using assms by (meson distinct_map inj_onD)
  then show ?thesis using q by simp
qed

subsection \<open>The records of one current row\<close>

lemma changes_of_item:
  "v \<in> set (changes_of pm c) \<Longrightarrow> c_ml_item_id v = ml_item_id c"
  by (auto simp: changes_of_def split: option.splits if_splits)

lemma prevMap_of_find:
  "prevMap_of previous k = List.find (\<lambda>q. ml_item_id q = k) (rev previous)"
proof -
  have "fold (\<lambda>i m. m(ml_item_id i \<mapsto> i)) ps m0 k
      = (case List.find (\<lambda>q. ml_item_id q = k) (rev ps) of None \<Rightarrow> m0 k | Some p \<Rightarrow> Some p)"
    for ps m0
  proof (induction ps arbitrary: m0 rule: rev_induct)
    case Nil
    then show ?case by simp
  next
    case (snoc a ps)
    have "fold (\<lambda>i m. m(ml_item_id i \<mapsto> i)) (ps @ [a]) m0 k
        = ((fold (\<lambda>i m. m(ml_item_id i \<mapsto> i)) ps m0)(ml_item_id a \<mapsto> a)) k"
      by (simp only: fold_append fold_simps comp_apply)
    also have "\<dots> = (if k = ml_item_id a then Some a
        else fold (\<lambda>i m. m(ml_item_id i \<mapsto> i)) ps m0 k)"
      by simp
    finally show ?case
      using snoc.IH[of m0] by auto
  qed
  from this[of previous Map.empty] show ?thesis
    by (simp add: prevMap_of_def split: option.splits)
qed

lemma changes_of_preco:
  assumes "pm (ml_item_id c) = Some p"
  shows "filter (\<lambda>v. c_tipo v = ''preco'') (changes_of pm c) =
     (if price_differs c p
      then [\<lparr>c_ml_item_id = ml_item_id c, c_tipo = ''preco'',
             c_valor_anterior = map_option Numero (preco p),
             c_valor_novo = map_option Numero (preco c),
             c_variacao_pct = Some (variacao c p),
             c_vendas_antes = vendidos p, c_vendas_depois = vendidos c\<rparr>]
      else [])"
  using assms by (simp add: changes_of_def)

lemma changes_of_preco_None:
  assumes "pm (ml_item_id c) = None"
  shows "filter (\<lambda>v. c_tipo v = ''preco'') (changes_of pm c) = []"
  using assms by (simp add: changes_of_def)

lemma changes_of_fields:
  assumes "v \<in> set (changes_of pm c)"
  shows "(c_tipo v = ''novo'' \<and> pm (ml_item_id c) = None \<and> c_valor_anterior v = None
            \<and> c_valor_novo v = map_option Texto (titulo c) \<and> c_variacao_pct v = None
            \<and> c_vendas_antes v = None \<and> c_vendas_depois v = None)
       \<or> (c_tipo v = ''preco'' \<and> (\<exists>p. pm (ml_item_id c) = Some p
            \<and> c_vendas_antes v = vendidos p \<and> c_vendas_depois v = vendidos c))
       \<or> (c_tipo v = ''titulo'' \<and> c_vendas_antes v = None \<and> c_vendas_depois v = None)"
  using assms by (auto simp: changes_of_def split: option.splits if_splits)

lemma filter_concat_item:
  assumes "distinct (map ml_item_id cur)" "c \<in> set cur"
  shows "filter (\<lambda>v. c_ml_item_id v = ml_item_id c) (concat (map (changes_of pm) cur))
           = changes_of pm c"
  using assms
proof (induction cur)
  case Nil
  then show ?case by simp
next
  case (Cons a cur)
  have keep: "filter (\<lambda>v. c_ml_item_id v = ml_item_id x) (changes_of pm x) = changes_of pm x" for x
    by (simp add: changes_of_item)
  have drop: "ml_item_id x \<noteq> ml_item_id c \<Longrightarrow>
      filter (\<lambda>v. c_ml_item_id v = ml_item_id c) (changes_of pm x) = []" for x
    by (auto simp: filter_empty_conv dest: changes_of_item)
  have none: "ml_item_id c \<notin> ml_item_id ` set xs \<Longrightarrow>
      filter (\<lambda>v. c_ml_item_id v = ml_item_id c) (concat (map (changes_of pm) xs)) = []" for xs
    by (induction xs) (auto simp: filter_empty_conv dest: changes_of_item)
  show ?case
  proof (cases "c = a")
    case True
    then have "ml_item_id c \<notin> ml_item_id ` set cur"
      using Cons.prems(1) by auto
    then show ?thesis
      using True keep[of a] none[of cur] by simp
  next
    case False
    then have c: "c \<in> set cur" using Cons.prems(2) by simp
    then have "ml_item_id a \<noteq> ml_item_id c"
      using Cons.prems(1) by auto
    then show ?thesis
      using drop[of a] Cons.IH c Cons.prems(1) by simp
  qed
qed

lemma emitted_for_item:
  assumes "distinct (map ml_item_id cur)" "c \<in> set cur"
  shows "map values_of (filter (\<lambda>r. al_ml_item_id r = ml_item_id c) (emitted now cur prev d))
           = changes_of (prevMap_of prev) c"
proof -
  have "map values_of (filter (\<lambda>r. al_ml_item_id r = ml_item_id c) (emitted now cur prev d))
      = filter (\<lambda>v. c_ml_item_id v = ml_item_id c) (map values_of (emitted now cur prev d))"
    by (simp add: filter_map comp_def values_of_def)
  then show ?thesis
    by (simp only: values_of_emitted filter_concat_item[OF assms])
qed

lemma emitted_preco:
  assumes "r \<in> set (emitted now current previous d)" and "tipo r = ''preco''"
  shows "\<exists>c\<in>set current. \<exists>p. prevMap_of previous (ml_item_id c) = Some p
     \<and> price_differs c p
     \<and> al_ml_item_id r = ml_item_id c
     \<and> valor_anterior r = map_option Numero (preco p)
     \<and> valor_novo r = map_option Numero (preco c)
     \<and> variacao_pct r = Some (variacao c p)"
proof -
  obtain c where c: "c \<in> set current" "values_of r \<in> set (changes_of (prevMap_of previous) c)"
    using emitted_row[OF assms(1)] by blast
  have t: "c_tipo (values_of r) = ''preco''"
    using assms(2) by (simp add: values_of_def)
  then have m: "values_of r \<in> set (filter (\<lambda>v. c_tipo v = ''preco'')
      (changes_of (prevMap_of previous) c))"
    using c(2) by simp
  show ?thesis
  proof (cases "prevMap_of previous (ml_item_id c)")
    case None
    then show ?thesis
      using m changes_of_preco_None[of "prevMap_of previous" c] by simp
  next
    case (Some p)
    have f: "price_differs c p \<and> values_of r =
        \<lparr>c_ml_item_id = ml_item_id c, c_tipo = ''preco'',
         c_valor_anterior = map_option Numero (preco p),
         c_valor_novo = map_option Numero (preco c),
         c_variacao_pct = Some (variacao c p),
         c_vendas_antes = vendidos p, c_vendas_depois = vendidos c\<rparr>"
      using m changes_of_preco[of "prevMap_of previous" c p, OF Some]
      by (simp split: if_splits)
    then have "al_ml_item_id r = ml_item_id c
       \<and> valor_anterior r = map_option Numero (preco p)
       \<and> valor_novo r = map_option Numero (preco c)
       \<and> variacao_pct r = Some (variacao c p)"
      by (simp add: values_of_def)
    then show ?thesis
      using c(1) Some f by blast
  qed
qed

lemma preco_emitted:
  assumes "c \<in> set current" and "prevMap_of previous (ml_item_id c) = Some p"
      and "price_differs c p"
  shows "\<exists>r\<in>set (emitted now current previous d). tipo r = ''preco''
     \<and> al_ml_item_id r = ml_item_id c
     \<and> valor_anterior r = map_option Numero (preco p)
     \<and> valor_novo r = map_option Numero (preco c)
     \<and> variacao_pct r = Some (variacao c p)"
proof -
  let ?v = "\<lparr>c_ml_item_id = ml_item_id c, c_tipo = ''preco'',
         c_valor_anterior = map_option Numero (preco p),
         c_valor_novo = map_option Numero (preco c),
         c_variacao_pct = Some (variacao c p),
         c_vendas_antes = vendidos p, c_vendas_depois = vendidos c\<rparr>"
  have "?v \<in> set (filter (\<lambda>v. c_tipo v = ''preco'') (changes_of (prevMap_of previous) c))"
    using changes_of_preco[of "prevMap_of previous" c p, OF assms(2)] assms(3) by simp
  then have "?v \<in> set (concat (map (changes_of (prevMap_of previous)) current))"
    using assms(1) by auto
  then have "?v \<in> set (map values_of (emitted now current previous d))"
    by (simp only: values_of_emitted)
  then obtain r where r: "r \<in> set (emitted now current previous d)" "values_of r = ?v"
    by auto
  have "tipo r = c_tipo (values_of r)" "al_ml_item_id r = c_ml_item_id (values_of r)"
      "valor_anterior r = c_valor_anterior (values_of r)"
      "valor_novo r = c_valor_novo (values_of r)"
      "variacao_pct r = c_variacao_pct (values_of r)"
    by (simp_all add: values_of_def)
  then show ?thesis
    using r by (intro bexI[of _ r]) simp_all
qed

lemma at_most_one_preco:
  assumes "distinct (map ml_item_id current)" and "c \<in> set current"
  shows "length (filter (\<lambda>r. al_ml_item_id r = ml_item_id c \<and> tipo r = ''preco'')
           (emitted now current previous d)) \<le> 1"
proof -
  let ?P = "\<lambda>r. al_ml_item_id r = ml_item_id c \<and> tipo r = ''preco''"
  have "map values_of (filter ?P (emitted now current previous d))
      = filter (\<lambda>v. c_tipo v = ''preco'')
          (map values_of (filter (\<lambda>r. al_ml_item_id r = ml_item_id c)
             (emitted now current previous d)))"
    by (simp add: filter_map comp_def values_of_def conj_commute)
  also have "\<dots> = filter (\<lambda>v. c_tipo v = ''preco'') (changes_of (prevMap_of previous) c)"
    by (simp only: emitted_for_item[OF assms])
  finally have m: "map values_of (filter ?P (emitted now current previous d))
      = filter (\<lambda>v. c_tipo v = ''preco'') (changes_of (prevMap_of previous) c)" .
  have "length (filter (\<lambda>v. c_tipo v = ''preco'') (changes_of (prevMap_of previous) c)) \<le> 1"
  proof (cases "prevMap_of previous (ml_item_id c)")
    case None
    then show ?thesis
      by (simp add: changes_of_preco_None)
  next
    case (Some p)
    then show ?thesis
      by (simp add: changes_of_preco[of "prevMap_of previous" c p])
  qed
  then have "length (map values_of (filter ?P (emitted now current previous d))) \<le> 1"
    by (simp only: m)
  then show ?thesis
    by simp
qed

lemma price_differs_finite:
  assumes "preco c = Some (Num x)" and "preco p = Some (Num y)"
  shows "price_differs c p \<longleftrightarrow> js_gt (js_abs (fl (x - y))) (fl (1 / 100))"
  by (simp add: price_differs_def assms ToNumber_def)

lemma toFixed2_finite:
  assumes "\<bar>w\<bar> < 10 ^ 21"
  shows "toFixed2 (Num w) = Pct (nearest (round2 w))"
  using assms by simp

lemma variacao_zero_previous:
  assumes "preco p = Some (Num 0)" and "preco c = Some (Num x)" and "price_differs c p"
  shows "variacao c p = PctText (if 0 < x then ''Infinity'' else ''-Infinity'')"
proof -
  have d: "js_gt (js_abs (fl x)) (fl (1 / 100))"
    using assms by (simp add: price_differs_def ToNumber_def)
  then have x: "x \<noteq> 0"
    using threshold_only_if[of x] by auto
  have v: "variacao c p = toFixed2 (js_times (js_div (fl x) (Num 0)) (Num 100))"
    using assms(1,2) by (simp add: variacao_def ToNumber_def)
  show ?thesis
  proof (cases "0 < x")
    case True
    have "fl x = Infinity \<or> (\<exists>w. fl x = Num w \<and> 0 < w)"
    proof (cases "pow2 1024 \<le> \<bar>nearest x\<bar>")
      case True
      then show ?thesis using \<open>0 < x\<close> by (simp add: fl_def)
    next
      case False
      then have f: "fl x = Num (nearest x)"
        by (simp add: fl_def)
      have "0 \<le> nearest x"
        using \<open>0 < x\<close> by (rule nearest_nonneg)
      moreover have "nearest x \<noteq> 0"
        using d f by (auto simp: fl_hundredth)
      ultimately show ?thesis
        using f by simp
    qed
    then show ?thesis
      using True v by auto
  next
    case False
    then have neg: "0 < - x"
      using x by simp
    have "fl x = MinusInfinity \<or> (\<exists>w. fl x = Num w \<and> w < 0)"
    proof (cases "pow2 1024 \<le> \<bar>nearest x\<bar>")
      case True
      then show ?thesis using False by (simp add: fl_def)
    next
      case False
      then have f: "fl x = Num (nearest x)"
        by (simp add: fl_def)
      have "0 \<le> nearest (- x)"
        using neg by (rule nearest_nonneg)
      then have "nearest x \<le> 0"
        by (simp add: nearest_minus)
      moreover have "nearest x \<noteq> 0"
        using d f by (auto simp: fl_hundredth)
      ultimately show ?thesis
        using f by simp
    qed
    then show ?thesis
      using False v by auto
  qed
qed

subsection \<open>The price test and the percentage on the example prices\<close>

lemma differs_110_100:
  assumes "preco c = Some (Num 110)" and "preco p = Some (Num 100)"
  shows "price_differs c p = True"
  by (simp add: price_differs_def assms ToNumber_def fl_literals)

lemma variacao_110_100:
  assumes "preco c = Some (Num 110)" and "preco p = Some (Num 100)"
  shows "variacao c p = Pct 10"
proof -
  have q: "fl (1 / 10) = Num (3602879701896397 / 36028797018963968)"
    using fl_normal[of "- 4" "1 / 10"] by (simp add: fl_eval)
  have v: "fl (3602879701896397 / 36028797018963968 * 100) = Num 10"
    using fl_normal[of 3 "3602879701896397 / 36028797018963968 * 100"] by (simp add: fl_eval)
  show ?thesis
    using v by (simp add: variacao_def assms ToNumber_def fl_literals q round2_def
      floor_rat_numeral nearest_numeral)
qed

lemma same_110_110:
  assumes "preco c = Some (Num 110)" and "preco p = Some (Num 110)"
  shows "price_differs c p = False"
  by (simp add: price_differs_def assms ToNumber_def fl_literals)

lemma differs_100_005_100:
  assumes "preco c = Some (Num (879653282685911 / 8796093022208))"
      and "preco p = Some (Num 100)"
  shows "price_differs c p = False"
proof -
  have d: "fl (879653282685911 / 8796093022208 - 100) = Num (43980465111 / 8796093022208)"
    using fl_normal[of "- 8" "879653282685911 / 8796093022208 - 100"] by (simp add: fl_eval)
  show ?thesis
    using d by (simp add: price_differs_def assms ToNumber_def fl_literals)
qed

lemma differs_100_01_100:
  assumes "preco c = Some (Num (7037578105208177 / 70368744177664))"
      and "preco p = Some (Num 100)"
  shows "price_differs c p = True"
proof -
  have d: "fl (7037578105208177 / 70368744177664 - 100) = Num (703687441777 / 70368744177664)"
    using fl_normal[of "- 7" "7037578105208177 / 70368744177664 - 100"] by (simp add: fl_eval)
  show ?thesis
    using d by (simp add: price_differs_def assms ToNumber_def fl_literals)
qed

lemma differs_0_02_0_01:
  assumes "preco c = Some (Num (5764607523034235 / 288230376151711744))"
      and "preco p = Some (Num (5764607523034235 / 576460752303423488))"
  shows "price_differs c p = False"
proof -
  have d: "fl (5764607523034235 / 288230376151711744 - 5764607523034235 / 576460752303423488)
      = Num (5764607523034235 / 576460752303423488)"
    using fl_normal[of "- 7"
        "5764607523034235 / 288230376151711744 - 5764607523034235 / 576460752303423488"]
    by (simp add: fl_eval)
  show ?thesis
    using d by (simp add: price_differs_def assms ToNumber_def fl_literals)
qed

lemma differs_1_85_1_60:
  assumes "preco c = Some (Num (4165829655317709 / 2251799813685248))"
      and "preco p = Some (Num (3602879701896397 / 2251799813685248))"
  shows "price_differs c p = True"
proof -
  have d: "fl (4165829655317709 / 2251799813685248 - 3602879701896397 / 2251799813685248)
      = Num (1 / 4)"
    using fl_normal[of "- 2"
        "4165829655317709 / 2251799813685248 - 3602879701896397 / 2251799813685248"]
    by (simp add: fl_eval)
  show ?thesis
    using d by (simp add: price_differs_def assms ToNumber_def fl_literals)
qed

lemma variacao_1_85_1_60:
  assumes "preco c = Some (Num (4165829655317709 / 2251799813685248))"
      and "preco p = Some (Num (3602879701896397 / 2251799813685248))"
  shows "variacao c p = Pct (8798907771975107 / 562949953421312)"
proof -
  have d: "fl (4165829655317709 / 2251799813685248 - 3602879701896397 / 2251799813685248)
      = Num (1 / 4)"
    using fl_normal[of "- 2"
        "4165829655317709 / 2251799813685248 - 3602879701896397 / 2251799813685248"]
    by (simp add: fl_eval)
  have q: "fl (1 / 4 / (3602879701896397 / 2251799813685248)) = Num (5 / 32)"
    using fl_normal[of "- 3" "1 / 4 / (3602879701896397 / 2251799813685248)"]
    by (simp add: fl_eval)
  have v: "fl (5 / 32 * 100) = Num (125 / 8)"
    using fl_normal[of 3 "5 / 32 * 100"] by (simp add: fl_eval)
  have n: "nearest (1563 / 100) = 8798907771975107 / 562949953421312"
    using nearest_normal(1)[of 3 "1563 / 100"] by (simp add: fl_eval)
  show ?thesis
    using d q v n by (simp add: variacao_def assms ToNumber_def round2_def floor_rat_numeral)
qed

lemma differs_10_0:
  assumes "preco c = Some (Num 10)" and "preco p = Some (Num 0)"
  shows "price_differs c p = True"
  by (simp add: price_differs_def assms ToNumber_def fl_literals)

lemma variacao_10_0:
  assumes "preco c = Some (Num 10)" and "preco p = Some (Num 0)"
  shows "variacao c p = PctText ''Infinity''"
  by (simp add: variacao_def assms ToNumber_def fl_literals)

lemmas example_prices = differs_110_100 variacao_110_100 same_110_110 differs_100_005_100
  differs_100_01_100 differs_0_02_0_01 differs_1_85_1_60 variacao_1_85_1_60 differs_10_0
  variacao_10_0

section \<open>The claims about the change detection\<close>

text \<open>The definitions a concrete run unfolds.\<close>

lemmas eval_defs = emitted_def detect_changes_def prevMap_of_def changes_of_def
  insert_alteracao_def next_rowid_def item_row_def empty_db_def Let_def values_of_def
  fl_literals example_prices

text \<open>
  C8. Items of the previous snapshot that are absent from the current one produce no
  change record: every record a detection run emits has the item id of a current row,
  so no record has the id of a previous row that no current row has.
\<close>

theorem removed_items_produce_no_record:
  "(\<forall>r\<in>set (emitted now current previous d). \<exists>c\<in>set current. al_ml_item_id r = ml_item_id c)
   \<and> (\<forall>p\<in>set previous. ml_item_id p \<notin> ml_item_id ` set current \<longrightarrow>
         (\<forall>r\<in>set (emitted now current previous d). al_ml_item_id r \<noteq> ml_item_id p))"
proof -
  have a: "\<exists>c\<in>set current. al_ml_item_id r = ml_item_id c"
    if r: "r \<in> set (emitted now current previous d)" for r
  proof -
    obtain c where c: "c \<in> set current" "values_of r \<in> set (changes_of (prevMap_of previous) c)"
      using emitted_row[OF r] by blast
    have "c_ml_item_id (values_of r) = ml_item_id c"
      using c(2) by (rule changes_of_item)
    then show ?thesis
      using c(1) by (auto simp: values_of_def)
  qed
  have b: "al_ml_item_id r \<noteq> ml_item_id p"
    if p: "ml_item_id p \<notin> ml_item_id ` set current"
      and r: "r \<in> set (emitted now current previous d)" for p r
  proof
    assume e: "al_ml_item_id r = ml_item_id p"
    obtain c where "c \<in> set current" "al_ml_item_id r = ml_item_id c"
      using a[OF r] by blast
    then show False
      using p e by (metis imageI)
  qed
  show ?thesis
    using a b by blast
qed

theorem removed_items_produce_no_record_witness:
  "map al_ml_item_id
     (emitted 20 [item_row 3 2 ''A'' ''Widget'' 110 2]
        [item_row 1 1 ''A'' ''Widget'' 100 2, item_row 2 1 ''B'' ''Gadget'' 5 0] empty_db) = [''A'']
   \<and> ''B'' \<notin> al_ml_item_id ` set
     (emitted 20 [item_row 3 2 ''A'' ''Widget'' 110 2]
        [item_row 1 1 ''A'' ''Widget'' 100 2, item_row 2 1 ''B'' ''Gadget'' 5 0] empty_db)"
  using removed_items_produce_no_record
    [of 20 "[item_row 3 2 ''A'' ''Widget'' 110 2]"
        "[item_row 1 1 ''A'' ''Widget'' 100 2, item_row 2 1 ''B'' ''Gadget'' 5 0]" empty_db]
  by (simp add: eval_defs)

text \<open>
  C9. Detection is deterministic: for fixed current and previous rows, two runs (at any
  clock, on any database) emit the same sequence of change records, which is the
  records of each current row, in the order of the current rows. A run has no effect
  but appending these records to \<^verbatim>\<open>alteracoes\<close>: the rows already there, the
  snapshots and the listings stay as they are.
\<close>

theorem detection_deterministic:
  "map values_of (emitted now1 current previous d1)
      = map values_of (emitted now2 current previous d2)
   \<and> map values_of (emitted now1 current previous d1)
      = concat (map (changes_of (prevMap_of previous)) current)
   \<and> alteracoes (detect_changes now1 current previous d1)
      = alteracoes d1 @ emitted now1 current previous d1
   \<and> snapshots (detect_changes now1 current previous d1) = snapshots d1
   \<and> anuncios (detect_changes now1 current previous d1) = anuncios d1"
  by (simp add: values_of_emitted alteracoes_detect_changes[symmetric] detect_changes_def diff_loop_others)

theorem detection_deterministic_witness:
  "map values_of
     (emitted 20 [item_row 3 2 ''A'' ''Widget'' 110 2, item_row 4 2 ''C'' ''Thing'' 1 0]
        [item_row 1 1 ''A'' ''Widget'' 100 2] empty_db)
   = map values_of
     (emitted 99 [item_row 3 2 ''A'' ''Widget'' 110 2, item_row 4 2 ''C'' ''Thing'' 1 0]
        [item_row 1 1 ''A'' ''Widget'' 100 2]
        (empty_db\<lparr>alteracoes_seq := 7\<rparr>))
   \<and> map al_ml_item_id
     (emitted 20 [item_row 3 2 ''A'' ''Widget'' 110 2, item_row 4 2 ''C'' ''Thing'' 1 0]
        [item_row 1 1 ''A'' ''Widget'' 100 2] empty_db) = [''A'', ''C'']"
  using detection_deterministic
    [of 20 "[item_row 3 2 ''A'' ''Widget'' 110 2, item_row 4 2 ''C'' ''Thing'' 1 0]"
        "[item_row 1 1 ''A'' ''Widget'' 100 2]" empty_db 99 "empty_db\<lparr>alteracoes_seq := 7\<rparr>"]
  by (simp add: eval_defs)

text \<open>
  C10. Of the records a detection run emits, only the price records (\<^verbatim>\<open>'preco'\<close>)
  carry sold counts: \<open>vendas_antes\<close> is the previous row's \<^verbatim>\<open>vendidos\<close> and
  \<open>vendas_depois\<close> the current row's. Title records (\<^verbatim>\<open>'titulo'\<close>) and new-item
  records (\<^verbatim>\<open>'novo'\<close>) leave both NULL; a new-item record also leaves
  \<open>valor_anterior\<close> and \<open>variacao_pct\<close> NULL, and its \<open>valor_novo\<close> is the current
  title. No other kind of record is emitted.
\<close>

theorem sold_counts_only_on_price_records:
  "\<forall>r\<in>set (emitted now current previous d).
     (tipo r = ''preco'' \<or> tipo r = ''titulo'' \<or> tipo r = ''novo'')
     \<and> (tipo r = ''preco'' \<longrightarrow>
          (\<exists>c\<in>set current. \<exists>p\<in>set previous.
             ml_item_id c = al_ml_item_id r \<and> ml_item_id p = al_ml_item_id r
             \<and> prevMap_of previous (ml_item_id c) = Some p
             \<and> vendas_antes r = vendidos p \<and> vendas_depois r = vendidos c))
     \<and> (tipo r = ''titulo'' \<longrightarrow> vendas_antes r = None \<and> vendas_depois r = None)
     \<and> (tipo r = ''novo'' \<longrightarrow>
          vendas_antes r = None \<and> vendas_depois r = None
          \<and> valor_anterior r = None \<and> variacao_pct r = None
          \<and> (\<exists>c\<in>set current. ml_item_id c = al_ml_item_id r
                \<and> valor_novo r = map_option Texto (titulo c)))"
proof
  fix r
  assume "r \<in> set (emitted now current previous d)"
  then obtain c where c: "c \<in> set current"
      "values_of r \<in> set (changes_of (prevMap_of previous) c)"
    using emitted_row by blast
  have i: "al_ml_item_id r = ml_item_id c"
    using changes_of_item[OF c(2)] by (simp add: values_of_def)
  have p: "p \<in> set previous \<and> ml_item_id p = ml_item_id c"
    if "prevMap_of previous (ml_item_id c) = Some p" for p
    using prevMap_of_Some[OF that] .
  show "(tipo r = ''preco'' \<or> tipo r = ''titulo'' \<or> tipo r = ''novo'')
     \<and> (tipo r = ''preco'' \<longrightarrow>
          (\<exists>c\<in>set current. \<exists>p\<in>set previous.
             ml_item_id c = al_ml_item_id r \<and> ml_item_id p = al_ml_item_id r
             \<and> prevMap_of previous (ml_item_id c) = Some p
             \<and> vendas_antes r = vendidos p \<and> vendas_depois r = vendidos c))
     \<and> (tipo r = ''titulo'' \<longrightarrow> vendas_antes r = None \<and> vendas_depois r = None)
     \<and> (tipo r = ''novo'' \<longrightarrow>
          vendas_antes r = None \<and> vendas_depois r = None
          \<and> valor_anterior r = None \<and> variacao_pct r = None
          \<and> (\<exists>c\<in>set current. ml_item_id c = al_ml_item_id r
                \<and> valor_novo r = map_option Texto (titulo c)))"
    using changes_of_fields[OF c(2)] c(1) i p
    by (auto simp: values_of_def)
qed

theorem sold_counts_only_on_price_records_witness:
  "map (\<lambda>r. (tipo r, valor_anterior r, valor_novo r, variacao_pct r, vendas_antes r, vendas_depois r))
     (emitted 20
        [item_row 3 2 ''A'' ''New Name'' 110 5, item_row 4 2 ''C'' ''Thing'' 1 0]
        [item_row 1 1 ''A'' ''Old Name'' 100 2] empty_db)
   = [(''preco'', Some (Numero (Num 100)), Some (Numero (Num 110)), Some (Pct 10), Some 2, Some 5),
      (''titulo'', Some (Texto ''Old Name''), Some (Texto ''New Name''), None, None, None),
      (''novo'', None, Some (Texto ''Thing''), None, None, None)]"
  using sold_counts_only_on_price_records
    [of 20 "[item_row 3 2 ''A'' ''New Name'' 110 5, item_row 4 2 ''C'' ''Thing'' 1 0]"
        "[item_row 1 1 ''A'' ''Old Name'' 100 2]" empty_db]
  by (simp add: eval_defs)

text \<open>
  C1. The claim, that a price record is emitted exactly when the prices differ by more
  than 0.01, fails: the code subtracts and compares in binary64. From 100.00 to 100.01
  the decimal difference is 0.01, not more, and yet a price record is emitted (the
  binary64 difference is 0.0100000000000051). From 0.01 to 0.02 the two stored numbers
  differ by more than 1/100 (by the binary64 number 0.01, which is above 1/100), and
  yet no record is emitted.
\<close>

theorem price_test_is_binary64:
  "\<not> 1 / 100 < \<bar>10001 / 100 - (100::rat)\<bar>
   \<and> map tipo
        (emitted 20 [item_row 2 2 ''A'' ''Widget'' (10001 / 100) 2]
           [item_row 1 1 ''A'' ''Widget'' 100 2] empty_db) = [''preco'']
   \<and> preco (item_row 2 2 ''A'' ''Widget'' (1 / 50) 2)
        = Some (Num (5764607523034235 / 288230376151711744))
   \<and> preco (item_row 1 1 ''A'' ''Widget'' (1 / 100) 2)
        = Some (Num (5764607523034235 / 576460752303423488))
   \<and> 1 / 100 < \<bar>5764607523034235 / 288230376151711744
                  - 5764607523034235 / (576460752303423488::rat)\<bar>
   \<and> emitted 20 [item_row 2 2 ''A'' ''Widget'' (1 / 50) 2]
        [item_row 1 1 ''A'' ''Widget'' (1 / 100) 2] empty_db = []"
  by (simp add: eval_defs)

text \<open>
  C1, amended. For a current row \<open>c\<close> and the previous row \<open>p\<close> that the map holds for
  the item id of \<open>c\<close> (the last previous row with that id, found by \<open>find\<close> from the
  end; the only one when ids are unique), a price record is emitted for \<open>c\<close> exactly
  when the binary64 difference of the prices is, in absolute value, greater than the
  binary64 number 0.01 (\<open>price_differs\<close>), and every emitted price record arises so;
  with unique current ids there is at most one per item. The record carries the
  previous price, the current price, and the percentage computed in binary64 and
  printed by \<^verbatim>\<open>toFixed(2)\<close> (\<open>variacao\<close>): below \<open>10^21\<close> the hundredth nearest to the
  computed number, as the nearest binary64 number. For finite prices \<open>x\<close> and \<open>y\<close>, a
  record is emitted only if \<open>\<bar>x - y\<bar> > 0.01\<close>, and always if \<open>\<bar>x - y\<bar>\<close> is at least the
  binary64 number next above 0.01. The witness runs the two examples: 100.00 to 110.00
  gives one price record with percentage 10.00, and 100.00 to 100.005 gives no record.
\<close>

theorem price_change_record:
  "(\<forall>k. prevMap_of previous k = List.find (\<lambda>q. ml_item_id q = k) (rev previous))
   \<and> (\<forall>c\<in>set current. \<forall>p.
         prevMap_of previous (ml_item_id c) = Some p \<and> price_differs c p \<longrightarrow>
           (\<exists>r\<in>set (emitted now current previous d). tipo r = ''preco''
              \<and> al_ml_item_id r = ml_item_id c
              \<and> valor_anterior r = map_option Numero (preco p)
              \<and> valor_novo r = map_option Numero (preco c)
              \<and> variacao_pct r = Some (variacao c p)))
   \<and> (\<forall>r\<in>set (emitted now current previous d). tipo r = ''preco'' \<longrightarrow>
         (\<exists>c\<in>set current. \<exists>p.
            prevMap_of previous (ml_item_id c) = Some p \<and> price_differs c p
            \<and> al_ml_item_id r = ml_item_id c
            \<and> valor_anterior r = map_option Numero (preco p)
            \<and> valor_novo r = map_option Numero (preco c)
            \<and> variacao_pct r = Some (variacao c p)))
   \<and> (distinct (map ml_item_id current) \<longrightarrow>
         (\<forall>c\<in>set current.
            length (filter (\<lambda>r. al_ml_item_id r = ml_item_id c \<and> tipo r = ''preco'')
              (emitted now current previous d)) \<le> 1))
   \<and> (\<forall>c p x y. preco c = Some (Num x) \<and> preco p = Some (Num y) \<longrightarrow>
         (price_differs c p \<longleftrightarrow> js_gt (js_abs (fl (x - y))) (fl (1 / 100)))
         \<and> (price_differs c p \<longrightarrow> 1 / 100 < \<bar>x - y\<bar>)
         \<and> (5764607523034236 / 576460752303423488 \<le> \<bar>x - y\<bar> \<longrightarrow> price_differs c p)
         \<and> variacao c p = toFixed2 (js_times (js_div (fl (x - y)) (Num y)) (Num 100)))
   \<and> (\<forall>w. \<bar>w\<bar> < 10 ^ 21 \<longrightarrow>
         toFixed2 (Num w) = Pct (nearest (round2 w))
         \<and> \<bar>round2 w - w\<bar> \<le> 1 / 200 \<and> (\<exists>n::int. round2 w = of_int n / 100))"
proof -
  have num: "(price_differs c p \<longleftrightarrow> js_gt (js_abs (fl (x - y))) (fl (1 / 100)))
         \<and> (price_differs c p \<longrightarrow> 1 / 100 < \<bar>x - y\<bar>)
         \<and> (5764607523034236 / 576460752303423488 \<le> \<bar>x - y\<bar> \<longrightarrow> price_differs c p)
         \<and> variacao c p = toFixed2 (js_times (js_div (fl (x - y)) (Num y)) (Num 100))"
    if h: "preco c = Some (Num x)" "preco p = Some (Num y)" for c p x y
  proof -
    note f = price_differs_finite[OF h]
    have a: "price_differs c p \<longrightarrow> 1 / 100 < \<bar>x - y\<bar>"
    proof
      assume "price_differs c p"
      then have "5764607523034235 / 576460752303423488 < \<bar>x - y\<bar>"
        unfolding f by (rule threshold_only_if)
      then show "1 / 100 < \<bar>x - y\<bar>"
        by simp
    qed
    have b: "5764607523034236 / 576460752303423488 \<le> \<bar>x - y\<bar> \<longrightarrow> price_differs c p"
      unfolding f using threshold_if[of "x - y"] by blast
    have v: "variacao c p = toFixed2 (js_times (js_div (fl (x - y)) (Num y)) (Num 100))"
      by (simp add: variacao_def h ToNumber_def)
    show ?thesis
      using f a b v by blast
  qed
  have tf: "toFixed2 (Num w) = Pct (nearest (round2 w))
         \<and> \<bar>round2 w - w\<bar> \<le> 1 / 200 \<and> (\<exists>n::int. round2 w = of_int n / 100)"
    if "\<bar>w\<bar> < 10 ^ 21" for w
    using toFixed2_finite[OF that] round2_near[of w] round2_hundredths[of w] by blast
  show ?thesis
    using prevMap_of_find[of previous] preco_emitted[of _ current previous _ now d]
      emitted_preco[of _ now current previous d] at_most_one_preco[of current _ now previous d]
      num tf
    by (intro conjI allI ballI impI; blast)
qed

theorem price_change_record_witness:
  "map (\<lambda>r. (tipo r, valor_anterior r, valor_novo r, variacao_pct r))
     (emitted 20 [item_row 2 2 ''A'' ''Widget'' 110 2] [item_row 1 1 ''A'' ''Widget'' 100 2] empty_db)
   = [(''preco'', Some (Numero (Num 100)), Some (Numero (Num 110)), Some (Pct 10))]
   \<and> emitted 20 [item_row 2 2 ''A'' ''Widget'' (20001 / 200) 2]
        [item_row 1 1 ''A'' ''Widget'' 100 2] empty_db = []"
  using price_change_record
    [of "[item_row 1 1 ''A'' ''Widget'' 100 2]" "[item_row 2 2 ''A'' ''Widget'' 110 2]" 20 empty_db]
  by (simp add: eval_defs)

section \<open>Properties of the capture\<close>

lemma insert_anuncios_rows:
  "\<exists>rows. anuncios (snd (insert_anuncios sid ls d)) = anuncios d @ rows
     \<and> map listing_of rows = takeWhile (\<lambda>i. item_id i \<noteq> None) ls
     \<and> (\<forall>r\<in>set rows. snapshot_id r = Some sid)"
proof (induction ls arbitrary: d)
  case Nil
  then show ?case by simp
next
  case (Cons a ls)
  show ?case
  proof (cases "item_id a")
    case None
    then show ?thesis
      by (simp add: insert_anuncio_def)
  next
    case (Some i)
    obtain d1 where d1: "insert_anuncio sid a d = (None, d1)"
      using Some by (simp add: insert_anuncio_def Let_def)
    obtain row where row: "anuncios d1 = anuncios d @ [row]" "listing_of row = a"
        "snapshot_id row = Some sid"
      using d1 Some by (auto simp: insert_anuncio_def Let_def listing_of_def)
    obtain rows where rows: "anuncios (snd (insert_anuncios sid ls d1)) = anuncios d1 @ rows"
        "map listing_of rows = takeWhile (\<lambda>i. item_id i \<noteq> None) ls"
        "\<forall>r\<in>set rows. snapshot_id r = Some sid"
      using Cons.IH by blast
    show ?thesis
      by (rule exI[of _ "row # rows"]) (simp add: d1 row rows Some)
  qed
qed

lemma insert_anuncios_others:
  "snapshots (snd (insert_anuncios sid ls d)) = snapshots d
   \<and> snapshots_seq (snd (insert_anuncios sid ls d)) = snapshots_seq d
   \<and> alteracoes (snd (insert_anuncios sid ls d)) = alteracoes d
   \<and> alteracoes_seq (snd (insert_anuncios sid ls d)) = alteracoes_seq d"
proof (induction ls arbitrary: d)
  case Nil
  then show ?case by simp
next
  case (Cons a ls)
  show ?case
  proof (cases "item_id a")
    case None
    then show ?thesis
      by (simp add: insert_anuncio_def)
  next
    case (Some i)
    then show ?thesis
      using Cons.IH[of "snd (insert_anuncio sid a d)"]
      by (simp add: insert_anuncio_def Let_def)
  qed
qed

lemma insert_anuncios_fst:
  "fst (insert_anuncios sid ls d) =
     (if \<forall>i\<in>set ls. item_id i \<noteq> None then None
      else Some (SqliteError ''NOT NULL constraint failed: anuncios.ml_item_id''))"
proof (induction ls arbitrary: d)
  case Nil
  then show ?case by simp
next
  case (Cons a ls)
  show ?case
  proof (cases "item_id a")
    case None
    then show ?thesis
      by (simp add: insert_anuncio_def)
  next
    case (Some i)
    then show ?thesis
      using Cons.IH[of "snd (insert_anuncio sid a d)"]
      by (simp add: insert_anuncio_def Let_def)
  qed
qed

lemma fold_max_ge: "(m::nat) \<le> fold max xs m \<and> (\<forall>x\<in>set xs. x \<le> fold max xs m)"
proof (induction xs arbitrary: m)
  case Nil
  then show ?case by simp
next
  case (Cons a xs)
  have "max a m \<le> fold max xs (max a m)" "\<forall>x\<in>set xs. x \<le> fold max xs (max a m)"
    using Cons.IH[of "max a m"] by blast+
  then show ?case by auto
qed

lemma next_rowid_fresh: "x \<in> set ids \<Longrightarrow> x < next_rowid seq ids"
  using fold_max_ge[of seq ids] by (auto simp: next_rowid_def less_Suc_eq_le)

lemma no_older_snapshot_iff_empty:
  "(\<forall>x\<in>set (snapshots d).
      \<not> s_id x < next_rowid (snapshots_seq d) (map s_id (snapshots d)))
   \<longleftrightarrow> snapshots d = []"
proof
  assume h: "\<forall>x\<in>set (snapshots d).
      \<not> s_id x < next_rowid (snapshots_seq d) (map s_id (snapshots d))"
  show "snapshots d = []"
  proof (cases "snapshots d")
    case Nil
    then show ?thesis .
  next
    case (Cons x xs)
    then have "s_id x \<in> set (map s_id (snapshots d))"
      by simp
    then have "s_id x < next_rowid (snapshots_seq d) (map s_id (snapshots d))"
      by (rule next_rowid_fresh)
    then show ?thesis
      using h Cons by simp
  qed
next
  assume "snapshots d = []"
  then show "\<forall>x\<in>set (snapshots d).
      \<not> s_id x < next_rowid (snapshots_seq d) (map s_id (snapshots d))"
    by simp
qed

lemma prevSnapshot_None:
  "prevSnapshot d sid = None \<longleftrightarrow> (\<forall>s\<in>set (snapshots d). \<not> s_id s < sid)"
proof -
  have "prevSnapshot d sid = None \<longleftrightarrow> filter (\<lambda>i. i < sid) (map s_id (snapshots d)) = []"
    by (simp add: prevSnapshot_def split: list.splits)
  then show ?thesis
    by (auto simp: filter_empty_conv)
qed

text \<open>The snapshot row a capture writes.\<close>

lemma capture_seller_missing:
  "capture now None ls d = (Status500 ''NOT NULL constraint failed: snapshots.seller_id'', d)"
  by (simp add: capture_def insert_snapshot_def)

lemma capture_result:
  fixes d :: db and ls :: "listing list" and now :: int and seller :: "string option"
  assumes "seller = Some s"
  defines "sid \<equiv> next_rowid (snapshots_seq d) (map s_id (snapshots d))"
  defines "d' \<equiv> snd (capture now seller ls d)"
  shows "snapshots d' = snapshots d @
           [\<lparr>s_id = sid, seller_id = s, captured_at = now,
             total_anuncios = Some (int (length ls)), total_vendas = Some (totalVendas_of ls),
             ticket_medio = None\<rparr>]"
    and "\<exists>rows. anuncios d' = anuncios d @ rows
           \<and> map listing_of rows = takeWhile (\<lambda>i. item_id i \<noteq> None) ls
           \<and> (\<forall>r\<in>set rows. snapshot_id r = Some sid)"
    and "fst (capture now seller ls d) =
           (if \<forall>i\<in>set ls. item_id i \<noteq> None then Success sid (length ls)
            else Status500 ''NOT NULL constraint failed: anuncios.ml_item_id'')"
    and "(\<exists>i\<in>set ls. item_id i = None) \<or> (\<forall>x\<in>set (snapshots d). \<not> s_id x < sid)
           \<Longrightarrow> alteracoes d' = alteracoes d"
proof -
  define row where "row = \<lparr>s_id = sid, seller_id = s, captured_at = now,
             total_anuncios = Some (int (length ls)), total_vendas = Some (totalVendas_of ls),
             ticket_medio = None\<rparr>"
  define d1 where "d1 = d\<lparr>snapshots := snapshots d @ [row], snapshots_seq := sid\<rparr>"
  define d2 where "d2 = snd (insert_anuncios sid ls d1)"
  have s1: "insert_snapshot now seller (int (length ls)) (totalVendas_of ls) d = (Inr sid, d1)"
    by (simp add: insert_snapshot_def assms(1) sid_def d1_def row_def Let_def)
  have ia: "insert_anuncios sid ls d1 = (fst (insert_anuncios sid ls d1), d2)"
    by (simp add: d2_def)
  have d2s: "snapshots d2 = snapshots d @ [row]" "alteracoes d2 = alteracoes d"
    using insert_anuncios_others[of sid ls d1] by (simp_all add: d2_def d1_def)
  obtain rows where rows: "anuncios d2 = anuncios d @ rows"
      "map listing_of rows = takeWhile (\<lambda>i. item_id i \<noteq> None) ls"
      "\<forall>r\<in>set rows. snapshot_id r = Some sid"
    using insert_anuncios_rows[of sid ls d1] by (auto simp: d2_def d1_def)
  show fst: "fst (capture now seller ls d) =
           (if \<forall>i\<in>set ls. item_id i \<noteq> None then Success sid (length ls)
            else Status500 ''NOT NULL constraint failed: anuncios.ml_item_id'')"
    using insert_anuncios_fst[of sid ls d1]
    by (cases "insert_anuncios sid ls d1") (auto simp: capture_def s1 split: option.splits)
  have cases: "d' = d2 \<or> (\<exists>prev. d' = detect_changes now (anuncios_of d2 sid) (anuncios_of d2 prev) d2)"
    unfolding d'_def
    by (cases "insert_anuncios sid ls d1")
       (auto simp: capture_def s1 d2_def split: option.splits error.splits)
  have keep: "snapshots (detect_changes now c p d2) = snapshots d2
      \<and> anuncios (detect_changes now c p d2) = anuncios d2" for c p
    by (simp add: detect_changes_def diff_loop_others)
  show "snapshots d' = snapshots d @
           [\<lparr>s_id = sid, seller_id = s, captured_at = now,
             total_anuncios = Some (int (length ls)), total_vendas = Some (totalVendas_of ls),
             ticket_medio = None\<rparr>]"
    using cases keep d2s(1) by (auto simp: row_def)
  have "anuncios d' = anuncios d2"
    using cases keep by auto
  then show "\<exists>rows. anuncios d' = anuncios d @ rows
           \<and> map listing_of rows = takeWhile (\<lambda>i. item_id i \<noteq> None) ls
           \<and> (\<forall>r\<in>set rows. snapshot_id r = Some sid)"
    using rows by auto
  show "alteracoes d' = alteracoes d"
    if h: "(\<exists>i\<in>set ls. item_id i = None) \<or> (\<forall>x\<in>set (snapshots d). \<not> s_id x < sid)"
  proof -
    have "d' = d2"
    proof (cases "\<exists>i\<in>set ls. item_id i = None")
      case True
      then have "fst (insert_anuncios sid ls d1) \<noteq> None"
        using insert_anuncios_fst[of sid ls d1] by auto
      then show ?thesis
        unfolding d'_def
        by (cases "insert_anuncios sid ls d1")
           (auto simp: capture_def s1 d2_def split: option.splits error.splits)
    next
      case False
      then have "\<forall>x\<in>set (snapshots d). \<not> s_id x < sid"
        using h by blast
      then have "prevSnapshot d2 sid = None"
        by (auto simp: prevSnapshot_None d2s(1) row_def)
      then show ?thesis
        unfolding d'_def
        by (cases "insert_anuncios sid ls d1")
           (auto simp: capture_def s1 d2_def split: option.splits error.splits)
    qed
    then show ?thesis
      by (simp add: d2s(2))
  qed
qed

section \<open>The claims about the capture\<close>

text \<open>The definitions a concrete capture unfolds.\<close>

lemmas capture_defs = capture_def insert_snapshot_def insert_anuncio_def totalVendas_of_def
  prevSnapshot_def anuncios_of_def item_def

text \<open>
  C2. The code has no policy for a previous price of zero. A first capture with the
  item at price 0 and a second one with the same item at price 10: the price record
  of the second capture stores \<^verbatim>\<open>(10 - 0) / 0 * 100\<close>, which is \<^verbatim>\<open>Infinity\<close>, printed by
  \<^verbatim>\<open>toFixed(2)\<close> as the text \<^verbatim>\<open>"Infinity"\<close>, in the REAL column \<^verbatim>\<open>variacao_pct\<close>.
\<close>

theorem zero_previous_price_stores_Infinity:
  "map (\<lambda>r. (tipo r, valor_anterior r, valor_novo r, variacao_pct r))
     (alteracoes (snd (capture 20 (Some ''2199171685'') [item ''A'' ''Widget'' 10 0]
        (snd (capture 10 (Some ''2199171685'') [item ''A'' ''Widget'' 0 0] empty_db)))))
   = [(''preco'', Some (Numero (Num 0)), Some (Numero (Num 10)), Some (PctText ''Infinity''))]"
  by (simp add: capture_defs eval_defs)

text \<open>
  C3. The snapshot INSERT names \<^verbatim>\<open>seller_id\<close>, \<^verbatim>\<open>total_anuncios\<close>, \<^verbatim>\<open>total_vendas\<close>
  and \<^verbatim>\<open>data\<close>: the average ticket is never computed, and the column
  \<^verbatim>\<open>ticket_medio\<close> the schema declares stays NULL. For listings with prices 10, 20, 30
  and sold counts 2, 3, 5 the stored snapshot has the count 3 and the sold total 10,
  and no average where 20 is due.
\<close>

theorem average_ticket_not_stored:
  "snapshots (snd (capture 10 (Some ''2199171685'')
      [item ''A'' ''Widget'' 10 2, item ''B'' ''Gadget'' 20 3, item ''C'' ''Thing'' 30 5] empty_db))
   = [\<lparr>s_id = 1, seller_id = ''2199171685'', captured_at = 10, total_anuncios = Some 3,
       total_vendas = Some 10, ticket_medio = None\<rparr>]"
  by (simp add: capture_defs eval_defs)

text \<open>
  C5. First capture. When no stored snapshot has an id below the id the new snapshot
  gets, the capture produces no change record: \<^verbatim>\<open>alteracoes\<close> is as before. When no
  statement fails (the seller id and every item id are present), it answers success
  with the new snapshot's id and the number of listings, the snapshot row is stored
  with its totals, one row is stored for each listing, in order, under the new
  snapshot's id, and the lookup of a previous snapshot finds none.
\<close>

theorem first_capture_baseline:
  assumes "\<forall>x\<in>set (snapshots d).
             \<not> s_id x < next_rowid (snapshots_seq d) (map s_id (snapshots d))"
  shows "alteracoes (snd (capture now seller listings d)) = alteracoes d
     \<and> (\<forall>s. seller = Some s \<and> (\<forall>i\<in>set listings. item_id i \<noteq> None) \<longrightarrow>
          (\<exists>snapshotId rows.
             fst (capture now seller listings d) = Success snapshotId (length listings)
             \<and> snapshotId = next_rowid (snapshots_seq d) (map s_id (snapshots d))
             \<and> prevSnapshot (snd (capture now seller listings d)) snapshotId = None
             \<and> snapshots (snd (capture now seller listings d)) = snapshots d @
                  [\<lparr>s_id = snapshotId, seller_id = s, captured_at = now,
                    total_anuncios = Some (int (length listings)),
                    total_vendas = Some (totalVendas_of listings), ticket_medio = None\<rparr>]
             \<and> anuncios (snd (capture now seller listings d)) = anuncios d @ rows
             \<and> map listing_of rows = listings
             \<and> (\<forall>r\<in>set rows. snapshot_id r = Some snapshotId)))"
proof -
  let ?sid = "next_rowid (snapshots_seq d) (map s_id (snapshots d))"
  let ?d' = "snd (capture now seller listings d)"
  have unchanged: "alteracoes ?d' = alteracoes d"
  proof (cases seller)
    case None
    then show ?thesis by (simp add: capture_seller_missing)
  next
    case (Some s)
    show ?thesis
      using capture_result(4)[OF Some, where ls = listings and d = d and now = now] assms by blast
  qed
  have ok: "\<exists>snapshotId rows.
             fst (capture now seller listings d) = Success snapshotId (length listings)
             \<and> snapshotId = ?sid
             \<and> prevSnapshot ?d' snapshotId = None
             \<and> snapshots ?d' = snapshots d @
                  [\<lparr>s_id = snapshotId, seller_id = s, captured_at = now,
                    total_anuncios = Some (int (length listings)),
                    total_vendas = Some (totalVendas_of listings), ticket_medio = None\<rparr>]
             \<and> anuncios ?d' = anuncios d @ rows
             \<and> map listing_of rows = listings
             \<and> (\<forall>r\<in>set rows. snapshot_id r = Some snapshotId)"
    if s: "seller = Some s" and ids: "\<forall>i\<in>set listings. item_id i \<noteq> None" for s
  proof -
    have all: "takeWhile (\<lambda>i. item_id i \<noteq> None) listings = listings"
      using ids by (simp add: takeWhile_eq_all_conv)
    obtain rows where rows: "anuncios ?d' = anuncios d @ rows"
        "map listing_of rows = listings" "\<forall>r\<in>set rows. snapshot_id r = Some ?sid"
      using capture_result(2)[OF s, where ls = listings and d = d and now = now] all by auto
    have snaps: "snapshots ?d' = snapshots d @
                  [\<lparr>s_id = ?sid, seller_id = s, captured_at = now,
                    total_anuncios = Some (int (length listings)),
                    total_vendas = Some (totalVendas_of listings), ticket_medio = None\<rparr>]"
      using capture_result(1)[OF s, where ls = listings and d = d and now = now] .
    have resp: "fst (capture now seller listings d) = Success ?sid (length listings)"
      using capture_result(3)[OF s, where ls = listings and d = d and now = now] ids by simp
    have prev: "prevSnapshot ?d' ?sid = None"
      unfolding prevSnapshot_None snaps using assms by simp
    show ?thesis
      using rows snaps resp prev by blast
  qed
  show ?thesis
    using unchanged ok by blast
qed

theorem first_capture_baseline_witness:
  "capture 10 (Some ''2199171685'')
     [item ''A'' ''Widget'' 10 2, item ''B'' ''Gadget'' 20 3] empty_db
   = (Success 1 2,
      \<lparr>snapshots =
         [\<lparr>s_id = 1, seller_id = ''2199171685'', captured_at = 10, total_anuncios = Some 2,
           total_vendas = Some 5, ticket_medio = None\<rparr>],
       snapshots_seq = 1,
       anuncios = [item_row 1 1 ''A'' ''Widget'' 10 2, item_row 2 1 ''B'' ''Gadget'' 20 3],
       anuncios_seq = 2, alteracoes = [], alteracoes_seq = 0\<rparr>)"
  using first_capture_baseline
    [of empty_db 10 "Some ''2199171685''"
       "[item ''A'' ''Widget'' 10 2, item ''B'' ''Gadget'' 20 3]"]
  by (simp add: capture_defs eval_defs)

text \<open>
  C4. The claim, that a failure between the snapshot write and the listing writes
  leaves no snapshot whose stored count differs from its stored rows, fails: with two
  fetched listings, the second without id, the snapshot row is written with
  \<^verbatim>\<open>total_anuncios = 2\<close>, the first listing is written, the second INSERT violates
  NOT NULL, the handler answers 500, and snapshot 1 stays stored with one listing row.
\<close>

theorem failed_listing_insert_leaves_snapshot:
  "fst (capture 10 (Some ''2199171685'')
          [item ''A'' ''Widget'' 10 2, (item ''B'' ''Gadget'' 20 3)\<lparr>item_id := None\<rparr>] empty_db)
     = Status500 ''NOT NULL constraint failed: anuncios.ml_item_id''
   \<and> map (\<lambda>s. (s_id s, total_anuncios s))
        (snapshots (snd (capture 10 (Some ''2199171685'')
          [item ''A'' ''Widget'' 10 2, (item ''B'' ''Gadget'' 20 3)\<lparr>item_id := None\<rparr>] empty_db)))
     = [(1, Some 2)]
   \<and> map ml_item_id
        (anuncios_of (snd (capture 10 (Some ''2199171685'')
          [item ''A'' ''Widget'' 10 2, (item ''B'' ''Gadget'' 20 3)\<lparr>item_id := None\<rparr>] empty_db)) 1)
     = [''A'']"
  by (simp add: capture_defs eval_defs)

text \<open>
  C4, amended. The capture writes the snapshot row and then the listing rows one
  statement at a time, with no transaction. With a seller id, the snapshot row is
  always stored, with \<^verbatim>\<open>total_anuncios\<close> the number of fetched listings; the listing
  rows stored under its id are those of the listings before the first one without id.
  When every listing has an id the answer is success and the rows are as many as the
  stored count; otherwise the answer is status 500 and the rows are fewer.
\<close>

theorem capture_writes_without_transaction:
  assumes "seller = Some s"
  shows "\<exists>row rows.
       snapshots (snd (capture now seller listings d)) = snapshots d @ [row]
     \<and> total_anuncios row = Some (int (length listings))
     \<and> anuncios (snd (capture now seller listings d)) = anuncios d @ rows
     \<and> (\<forall>r\<in>set rows. snapshot_id r = Some (s_id row))
     \<and> map listing_of rows = takeWhile (\<lambda>i. item_id i \<noteq> None) listings
     \<and> ((\<forall>i\<in>set listings. item_id i \<noteq> None) \<longrightarrow>
           fst (capture now seller listings d) = Success (s_id row) (length listings)
           \<and> length rows = length listings)
     \<and> ((\<exists>i\<in>set listings. item_id i = None) \<longrightarrow>
           fst (capture now seller listings d)
             = Status500 ''NOT NULL constraint failed: anuncios.ml_item_id''
           \<and> length rows < length listings)"
proof -
  let ?sid = "next_rowid (snapshots_seq d) (map s_id (snapshots d))"
  let ?row = "\<lparr>s_id = ?sid, seller_id = s, captured_at = now,
             total_anuncios = Some (int (length listings)),
             total_vendas = Some (totalVendas_of listings), ticket_medio = None\<rparr>"
  obtain rows where rows: "anuncios (snd (capture now seller listings d)) = anuncios d @ rows"
      "map listing_of rows = takeWhile (\<lambda>i. item_id i \<noteq> None) listings"
      "\<forall>r\<in>set rows. snapshot_id r = Some ?sid"
    using capture_result(2)[OF assms, where ls = listings and d = d and now = now] by auto
  have len: "length rows = length (takeWhile (\<lambda>i. item_id i \<noteq> None) listings)"
    using rows(2) by (metis length_map)
  have l1: "(\<forall>i\<in>set listings. item_id i \<noteq> None) \<Longrightarrow> length rows = length listings"
    using len by (simp add: takeWhile_eq_all_conv[THEN iffD2])
  have l2: "(\<exists>i\<in>set listings. item_id i = None) \<Longrightarrow> length rows < length listings"
  proof -
    assume "\<exists>i\<in>set listings. item_id i = None"
    then have "takeWhile (\<lambda>i. item_id i \<noteq> None) listings \<noteq> listings"
      by (auto simp: takeWhile_eq_all_conv)
    moreover have "length (takeWhile (\<lambda>i. item_id i \<noteq> None) listings) \<le> length listings"
      by (rule length_takeWhile_le)
    ultimately show ?thesis
      using len by (metis le_neq_implies_less length_takeWhile_le takeWhile_eq_take take_all_iff order_refl)
  qed
  show ?thesis
    apply (rule exI[of _ ?row])
    apply (rule exI[of _ rows])
    using capture_result(1)[OF assms, where ls = listings and d = d and now = now]
      capture_result(3)[OF assms, where ls = listings and d = d and now = now] rows l1 l2
    by auto
qed

theorem capture_writes_without_transaction_witness:
  "snapshots (snd (capture 10 (Some ''2199171685'')
      [item ''A'' ''Widget'' 10 2, (item ''B'' ''Gadget'' 20 3)\<lparr>item_id := None\<rparr>,
       item ''C'' ''Thing'' 30 5] empty_db))
     = [\<lparr>s_id = 1, seller_id = ''2199171685'', captured_at = 10, total_anuncios = Some 3,
         total_vendas = Some 10, ticket_medio = None\<rparr>]
   \<and> anuncios (snd (capture 10 (Some ''2199171685'')
      [item ''A'' ''Widget'' 10 2, (item ''B'' ''Gadget'' 20 3)\<lparr>item_id := None\<rparr>,
       item ''C'' ''Thing'' 30 5] empty_db))
     = [item_row 1 1 ''A'' ''Widget'' 10 2]"
  using capture_writes_without_transaction
    [of "Some ''2199171685''" "''2199171685''" 10
       "[item ''A'' ''Widget'' 10 2, (item ''B'' ''Gadget'' 20 3)\<lparr>item_id := None\<rparr>,
         item ''C'' ''Thing'' 30 5]" empty_db]
  by (simp add: capture_defs eval_defs)

text \<open>
  C6. The claim, that a fetched set with a repeated item id is rejected and that item
  ids are unique within a stored snapshot, fails: two listings with id \<^verbatim>\<open>A\<close> are both
  stored under snapshot 1 and the capture answers success.
\<close>

theorem duplicate_item_ids_persisted:
  "fst (capture 10 (Some ''2199171685'')
          [item ''A'' ''Widget'' 10 2, item ''A'' ''Widget'' 10 2] empty_db) = Success 1 2
   \<and> map ml_item_id
        (anuncios_of (snd (capture 10 (Some ''2199171685'')
          [item ''A'' ''Widget'' 10 2, item ''A'' ''Widget'' 10 2] empty_db)) 1)
     = [''A'', ''A'']"
  by (simp add: capture_defs eval_defs)

text \<open>
  C6, amended. The capture checks no uniqueness: when the seller id and every item id
  are present it succeeds, and the rows it stores under the new snapshot's id carry
  the fetched item ids, one row per listing, in order. So the item ids of the stored
  rows are unique exactly when the fetched ones are. When no older row carries the
  new snapshot's id, these rows are the snapshot's listings.
\<close>

theorem capture_stores_fetched_ids:
  assumes "seller = Some s" and "\<forall>i\<in>set listings. item_id i \<noteq> None"
  shows "\<exists>snapshotId rows.
       fst (capture now seller listings d) = Success snapshotId (length listings)
     \<and> anuncios (snd (capture now seller listings d)) = anuncios d @ rows
     \<and> (\<forall>r\<in>set rows. snapshot_id r = Some snapshotId)
     \<and> map (\<lambda>r. Some (ml_item_id r)) rows = map item_id listings
     \<and> (distinct (map ml_item_id rows) \<longleftrightarrow> distinct (map item_id listings))
     \<and> ((\<forall>a\<in>set (anuncios d). snapshot_id a \<noteq> Some snapshotId) \<longrightarrow>
           anuncios_of (snd (capture now seller listings d)) snapshotId = rows)"
proof -
  let ?sid = "next_rowid (snapshots_seq d) (map s_id (snapshots d))"
  have all: "takeWhile (\<lambda>i. item_id i \<noteq> None) listings = listings"
    using assms(2) by (simp add: takeWhile_eq_all_conv)
  obtain rows where rows: "anuncios (snd (capture now seller listings d)) = anuncios d @ rows"
      "map listing_of rows = listings" "\<forall>r\<in>set rows. snapshot_id r = Some ?sid"
    using capture_result(2)[OF assms(1), where ls = listings and d = d and now = now] all
    by auto
  have resp: "fst (capture now seller listings d) = Success ?sid (length listings)"
    using capture_result(3)[OF assms(1), where ls = listings and d = d and now = now] assms(2)
    by simp
  have "map item_id (map listing_of rows) = map item_id listings"
    using rows(2) by simp
  then have ids: "map (\<lambda>r. Some (ml_item_id r)) rows = map item_id listings"
    by (simp add: listing_of_def comp_def)
  have "distinct (map (\<lambda>r. Some (ml_item_id r)) rows) \<longleftrightarrow> distinct (map ml_item_id rows)"
    using distinct_map[of Some "map ml_item_id rows"] by (simp add: comp_def)
  then have dist: "distinct (map ml_item_id rows) \<longleftrightarrow> distinct (map item_id listings)"
    using ids by simp
  have sel: "anuncios_of (snd (capture now seller listings d)) ?sid = rows"
    if "\<forall>a\<in>set (anuncios d). snapshot_id a \<noteq> Some ?sid"
  proof -
    have "filter (\<lambda>a. snapshot_id a = Some ?sid) (anuncios d) = []"
      using that by (simp add: filter_empty_conv)
    moreover have "filter (\<lambda>a. snapshot_id a = Some ?sid) rows = rows"
      using rows(3) by (simp add: filter_id_conv)
    ultimately show ?thesis
      by (simp add: anuncios_of_def rows(1))
  qed
  show ?thesis
    using resp rows(1,3) ids dist sel by blast
qed

theorem capture_stores_fetched_ids_witness:
  "map (\<lambda>r. (an_id r, snapshot_id r, ml_item_id r, titulo r))
     (anuncios (snd (capture 10 (Some ''2199171685'')
        [item ''A'' ''Widget'' 10 2, item ''A'' ''Widget again'' 12 0] empty_db)))
   = [(1, Some 1, ''A'', Some ''Widget''), (2, Some 1, ''A'', Some ''Widget again'')]"
  using capture_stores_fetched_ids
    [of "Some ''2199171685''" "''2199171685''"
       "[item ''A'' ''Widget'' 10 2, item ''A'' ''Widget again'' 12 0]" 10 empty_db]
  by (simp add: capture_defs eval_defs)

section \<open>Properties of the changes query\<close>







subsection \<open>The ordered and limited rows\<close>



section \<open>The claim about the changes query\<close>





end
